theory Spec2Isabelle
  imports Complex_Main "HOL-Library.Multiset" "HOL-Library.Log_Nat"
begin

section \<open>JavaScript values\<close>

text \<open>
  The request body is whatever the JSON body parser produced, so the handler works on
  untyped values. Finite numbers are kept as rationals; the three non-finite doubles are
  separate constructors. Strings are ASCII character lists. An object is the list of its
  own properties; a property that is not there reads as \<open>undefined\<close>.
\<close>

datatype jsnum = Fin rat | NaN | PosInf | NegInf

datatype jsval =
    JUndefined
  | JNull
  | JBool bool
  | JNum jsnum
  | JStr string
  | JArr "jsval list"
  | JObj "(string \<times> jsval) list"

text \<open>Truthiness, as used by \<open>!x\<close>, \<open>&&\<close>, \<open>||\<close> and \<open>if (x)\<close>.\<close>

fun truthy :: "jsval \<Rightarrow> bool" where
  "truthy JUndefined = False"
| "truthy JNull = False"
| "truthy (JBool b) = b"
| "truthy (JNum n) = (n \<noteq> Fin 0 \<and> n \<noteq> NaN)"
| "truthy (JStr s) = (s \<noteq> [])"
| "truthy (JArr xs) = True"
| "truthy (JObj kvs) = True"

text \<open>\<open>x == null\<close>, which is also the test of the \<open>??\<close> operator.\<close>

fun nullish :: "jsval \<Rightarrow> bool" where
  "nullish JUndefined = True"
| "nullish JNull = True"
| "nullish v = False"

text \<open>
  Property read \<open>v.k\<close> on a value that is neither \<open>null\<close> nor \<open>undefined\<close>.
  Arrays and strings carry a \<open>length\<close>; no other name read by the server is inherited
  from a prototype.
\<close>

fun getprop :: "jsval \<Rightarrow> string \<Rightarrow> jsval" where
  "getprop (JObj kvs) k = (case map_of kvs k of Some v \<Rightarrow> v | None \<Rightarrow> JUndefined)"
| "getprop (JArr xs) k =
     (if k = ''length'' then JNum (Fin (of_nat (length xs))) else JUndefined)"
| "getprop (JStr s) k =
     (if k = ''length'' then JNum (Fin (of_nat (length s))) else JUndefined)"
| "getprop v k = JUndefined"

definition js_and :: "jsval \<Rightarrow> jsval \<Rightarrow> jsval" where
  "js_and a b = (if truthy a then b else a)"

definition js_or :: "jsval \<Rightarrow> jsval \<Rightarrow> jsval" where
  "js_or a b = (if truthy a then a else b)"

definition js_coalesce :: "jsval \<Rightarrow> jsval \<Rightarrow> jsval" where
  "js_coalesce a b = (if nullish a then b else a)"

text \<open>
  \<open>Number(v)\<close>. The conversion of a string (and of an array or object, which goes
  through its string form) is the language's numeric-literal parser; it is taken as the
  parameter \<open>str_num\<close>.
\<close>

fun Number_js :: "(jsval \<Rightarrow> jsnum) \<Rightarrow> jsval \<Rightarrow> jsnum" where
  "Number_js str_num JUndefined = NaN"
| "Number_js str_num JNull = Fin 0"
| "Number_js str_num (JBool b) = (if b then Fin 1 else Fin 0)"
| "Number_js str_num (JNum n) = n"
| "Number_js str_num v = str_num v"

fun isFinite_js :: "jsnum \<Rightarrow> bool" where
  "isFinite_js (Fin q) = True"
| "isFinite_js n = False"

text \<open>Decimal rendering of an index inside a template string.\<close>

fun digit_char :: "nat \<Rightarrow> char" where
  "digit_char n = (''0123456789'' ! n)"

function show_nat :: "nat \<Rightarrow> string" where
  "show_nat n = (if n < 10 then [digit_char n] else show_nat (n div 10) @ [digit_char (n mod 10)])"
  by pat_completeness auto
termination
  by (relation "measure id") auto

declare show_nat.simps [simp del]

definition show_int :: "int \<Rightarrow> string" where
  "show_int i = (if i < 0 then CHR ''-'' # show_nat (nat (- i)) else show_nat (nat i))"

section \<open>Exceptions\<close>

text \<open>
  A thrown value. \<open>HttpError\<close> is the \<open>Error\<close> that the downloader decorates with
  \<open>status\<close> and \<open>url\<close>.
\<close>

datatype exn =
    Error string
  | TypeError string
  | ReferenceError string
  | HttpError string "int option" string

fun message :: "exn \<Rightarrow> string" where
  "message (Error m) = m"
| "message (TypeError m) = m"
| "message (ReferenceError m) = m"
| "message (HttpError m s u) = m"

section \<open>Segment normalisation (server.js, the map over rawSegments)\<close>

record segment =
  seg_id :: jsval
  seg_imageUrl :: jsval
  seg_duration :: jsval
  seg_image_prompt :: jsval
  seg_subtitleText :: jsval
  seg_word_duration :: jsval

definition normalize_segment :: "jsval \<Rightarrow> segment" where
  "normalize_segment s =
     \<lparr> seg_id = js_and s (js_coalesce (getprop s ''id'')
                  (js_coalesce (getprop s ''ID'') (getprop s ''index''))),
       seg_imageUrl = js_and s (js_or (getprop s ''imageUrl'')
                  (js_or (getprop s ''image_Url'')
                  (js_or (getprop s ''image_url'') (getprop s ''image'')))),
       seg_duration = js_and s (js_coalesce (getprop s ''duration'')
                  (js_coalesce (getprop s ''length'') (getprop s ''time''))),
       seg_image_prompt = js_and s (js_or (getprop s ''image_prompt'') (getprop s ''imagePrompt'')),
       seg_subtitleText = js_and s (js_or (getprop s ''subtitleText'')
                  (js_or (getprop s ''subtitle_text'') (getprop s ''subtitle''))),
       seg_word_duration = js_and s (js_or (getprop s ''word_duration'')
                  (js_or (getprop s ''wordDuration'') (getprop s ''words''))) \<rparr>"

section \<open>The concurrency limiter (server.js, pLimit)\<close>

text \<open>
  \<open>queue\<close> and \<open>active\<close> are the two variables of the closure. A queue entry
  \<open>{fn, resolve, reject}\<close> is the pair of the task and the promise whose callbacks it
  holds. The other fields record what the outside world sees: which tasks have been
  started and have not settled yet, the order of admission, the order of submission and
  the promises settled so far with their results.
\<close>

datatype 'a settle = Fulfil 'a | Reject exn

record 'a limiter =
  queue :: "(nat \<times> nat) list"
  active :: int
  running :: "(nat \<times> nat) list"
  admitted :: "nat list"
  submitted :: "nat list"
  settled :: "(nat \<times> 'a settle) list"

definition pLimit :: "'a limiter" where
  "pLimit = \<lparr> queue = [], active = 0, running = [], admitted = [], submitted = [], settled = [] \<rparr>"

definition next_fn :: "int \<Rightarrow> 'a limiter \<Rightarrow> 'a limiter" where
  "next_fn concurrency st =
     (if queue st = [] \<or> active st \<ge> concurrency then st
      else st \<lparr> active := active st + 1,
                queue := tl (queue st),
                running := running st @ [hd (queue st)],
                admitted := admitted st @ [fst (hd (queue st))] \<rparr>)"

text \<open>\<open>limit(fn)\<close> for task \<open>k\<close>: a new promise \<open>k\<close>, the entry pushed, then \<open>next()\<close>.\<close>

definition limit :: "int \<Rightarrow> nat \<Rightarrow> 'a limiter \<Rightarrow> 'a limiter" where
  "limit concurrency k st =
     next_fn concurrency (st \<lparr> queue := queue st @ [(k, k)], submitted := submitted st @ [k] \<rparr>)"

text \<open>
  The promise returned by the started task \<open>f\<close> settles with \<open>r\<close>: both callbacks
  decrement \<open>active\<close>, pass \<open>r\<close> to the callback of the entry and call \<open>next()\<close>.
  A task that is not running cannot settle; such an event changes nothing.
\<close>

definition on_settle :: "int \<Rightarrow> nat \<Rightarrow> 'a settle \<Rightarrow> 'a limiter \<Rightarrow> 'a limiter" where
  "on_settle concurrency f r st =
     (case find (\<lambda>e. fst e = f) (running st) of
        None \<Rightarrow> st
      | Some e \<Rightarrow> next_fn concurrency
          (st \<lparr> active := active st - 1,
                running := remove1 e (running st),
                settled := settled st @ [(snd e, r)] \<rparr>))"

datatype 'a event = Call nat | Done nat "'a settle"

fun step :: "int \<Rightarrow> 'a limiter \<Rightarrow> 'a event \<Rightarrow> 'a limiter" where
  "step c st (Call k) = limit c k st"
| "step c st (Done f r) = on_settle c f r st"

definition run :: "int \<Rightarrow> 'a event list \<Rightarrow> 'a limiter" where
  "run c evs = foldl (step c) pLimit evs"

definition MAX_CONCURRENCY :: "int \<Rightarrow> int" where
  "MAX_CONCURRENCY cpus = max 1 (cpus - 1)"

text \<open>
  The statement of the alias rule in the words of the description: the candidates are
  tried in order, the first one that counts as present gives the value, and when none
  does the value is what the last candidate holds.
\<close>

definition first_present :: "(jsval \<Rightarrow> bool) \<Rightarrow> string list \<Rightarrow> jsval \<Rightarrow> jsval" where
  "first_present present aliases s =
     (case find present (map (getprop s) (butlast aliases)) of
        Some v \<Rightarrow> v
      | None \<Rightarrow> getprop s (last aliases))"

definition is_present :: "jsval \<Rightarrow> bool" where
  "is_present v = (v \<noteq> JUndefined)"

definition not_nullish :: "jsval \<Rightarrow> bool" where
  "not_nullish v = (\<not> nullish v)"

definition segment_empty_imageUrl :: jsval where
  "segment_empty_imageUrl =
     JObj [(''imageUrl'', JStr []), (''image'', JStr ''http://host/a.png''),
           (''duration'', JNum (Fin 3))]"

text \<open>The invariant of the limiter used in the proofs below.\<close>

definition lim_inv :: "int \<Rightarrow> 'a limiter \<Rightarrow> bool" where
  "lim_inv c st \<longleftrightarrow>
     active st = int (length (running st)) \<and> active st \<le> c \<and>
     admitted st @ map fst (queue st) = submitted st \<and>
     mset (submitted st) =
       mset (map snd (queue st)) + mset (map snd (running st)) + mset (map fst (settled st)) \<and>
     (\<forall>e \<in> set (queue st) \<union> set (running st). fst e = snd e) \<and>
     (queue st \<noteq> [] \<longrightarrow> active st = c)"

definition limiter_example :: "unit event list" where
  "limiter_example =
     [Call 0, Call 1, Call 2, Call 3, Done 0 (Reject (Error ''boom''))]"

section \<open>The asset fetcher (lib/download.js, downloadFileToPath)\<close>

text \<open>
  What the network does on one attempt. \<open>axiosInstance.get\<close> is called with
  \<open>validateStatus: null\<close>, so it either throws (a transport error, seen by the catch
  clause through its normalised status \<open>err.response.status || err.status\<close> and its
  message) or returns a response with a status; with a 2xx response the directory is
  made and the body is piped to the file, which again either succeeds or throws.
  A status that is missing is \<open>None\<close>.
\<close>

datatype body_write = WriteOk | WriteThrows "int option" string

datatype attempt = GetThrows "int option" string | GetResp "int option" body_write

definition status_truthy :: "int option \<Rightarrow> bool" where
  "status_truthy s = (case s of None \<Rightarrow> False | Some n \<Rightarrow> n \<noteq> 0)"

definition show_status :: "int option \<Rightarrow> string" where
  "show_status s = (case s of None \<Rightarrow> ''undefined'' | Some n \<Rightarrow> show_int n)"

text \<open>
  The try block of one attempt: \<open>None\<close> when the file was written (\<open>return\<close>),
  otherwise the status and the message that the catch clause reads off the thrown error.
\<close>

fun try_block :: "string \<Rightarrow> attempt \<Rightarrow> (int option \<times> string) option" where
  "try_block url (GetThrows st m) = Some (st, m)"
| "try_block url (GetResp st w) =
     (if \<not> status_truthy st \<or> (case st of None \<Rightarrow> True | Some n \<Rightarrow> n < 200 \<or> n \<ge> 300)
      then Some (st, ''Request failed with status code '' @ show_status st @ '' for '' @ url)
      else (case w of WriteOk \<Rightarrow> None | WriteThrows s m \<Rightarrow> Some (s, m)))"

definition catch_message :: "string \<Rightarrow> int option \<Rightarrow> string \<Rightarrow> string" where
  "catch_message url st m =
     (if status_truthy st
      then ''Request failed with status code '' @ show_status st @ '' for '' @ url
      else ''Request error for '' @ url @ '': '' @ m)"

definition non_retryable :: "int option \<Rightarrow> bool" where
  "non_retryable st =
     (status_truthy st \<and> (case st of None \<Rightarrow> False | Some n \<Rightarrow> n \<in> set [400, 401, 403, 404]))"

text \<open>
  The \<open>while (true)\<close> loop. \<open>attempt\<close> is the counter before its increment; the
  result is what the call returns or throws, the number of attempts made and the delays
  slept, in order.
\<close>

function downloadFileToPath_loop ::
  "string \<Rightarrow> (nat \<Rightarrow> attempt) \<Rightarrow> int \<Rightarrow> int \<Rightarrow> nat \<Rightarrow> int list \<Rightarrow> (exn + unit) \<times> nat \<times> int list"
where
  "downloadFileToPath_loop url net retries retryDelay attempt slept =
     (case try_block url (net (Suc attempt)) of
        None \<Rightarrow> (Inr (), Suc attempt, slept)
      | Some sm \<Rightarrow>
          if non_retryable (fst sm)
          then (Inl (HttpError (catch_message url (fst sm) (snd sm)) (fst sm) url), Suc attempt, slept)
          else if int (Suc attempt) > retries
          then (Inl (HttpError (catch_message url (fst sm) (snd sm)) (fst sm) url), Suc attempt, slept)
          else downloadFileToPath_loop url net retries retryDelay (Suc attempt)
                 (slept @ [retryDelay * int (Suc attempt)]))"
  by pat_completeness auto
termination
  by (relation "measure (\<lambda>(url, net, retries, retryDelay, attempt, slept). nat (retries + 1 - int attempt))")
     auto

declare downloadFileToPath_loop.simps [simp del]

record download_options =
  retries :: "int option"
  retryDelay :: "int option"

definition downloadFileToPath ::
  "(nat \<Rightarrow> attempt) \<Rightarrow> string \<Rightarrow> string \<Rightarrow> download_options \<Rightarrow> (exn + unit) \<times> nat \<times> int list"
where
  "downloadFileToPath net url destPath options =
     downloadFileToPath_loop url net
       (case retries options of None \<Rightarrow> 2 | Some r \<Rightarrow> r)
       (case retryDelay options of None \<Rightarrow> 500 | Some d \<Rightarrow> d)
       0 []"

text \<open>An attempt that fails and is not one of the four statuses that end the call.\<close>

definition retryable_failure :: "string \<Rightarrow> attempt \<Rightarrow> bool" where
  "retryable_failure url a =
     (case try_block url a of None \<Rightarrow> False | Some sm \<Rightarrow> \<not> non_retryable (fst sm))"

definition net_500_500_200 :: "nat \<Rightarrow> attempt" where
  "net_500_500_200 k = (if k \<le> 2 then GetResp (Some 500) WriteOk else GetResp (Some 200) WriteOk)"

definition net_404 :: "nat \<Rightarrow> attempt" where
  "net_404 k = GetResp (Some 404) WriteOk"

definition net_503_then_reset :: "nat \<Rightarrow> attempt" where
  "net_503_then_reset k =
     (if k \<le> 1 then GetResp (Some 503) WriteOk else GetThrows None ''socket hang up'')"

definition default_options :: download_options where
  "default_options = \<lparr> retries = None, retryDelay = None \<rparr>"

section \<open>Double-precision arithmetic\<close>

text \<open>
  Numbers of the language are IEEE-754 doubles: a quotient or a product is the exact
  result rounded to the nearest number with a 53-bit significand, ties to the even one.
  \<open>fl\<close> is that rounding on the rationals (overflow and subnormal numbers are left
  out: the magnitudes here are pixel counts and their ratios).
\<close>

definition round_half_even :: "rat \<Rightarrow> int" where
  "round_half_even y =
     (let f = \<lfloor>y\<rfloor>; r = y - of_int f
      in if r < 1 / 2 then f else if r > 1 / 2 then f + 1 else if even f then f else f + 1)"

text \<open>The exponent \<open>e\<close> with \<open>2 ^ e \<le> x < 2 ^ (e + 1)\<close>, for positive \<open>x\<close>.\<close>

definition ilog2 :: "rat \<Rightarrow> int" where
  "ilog2 x = (if x \<ge> 1 then bitlen \<lfloor>x\<rfloor> - 1 else - bitlen (\<lceil>1 / x\<rceil> - 1))"

definition fl :: "rat \<Rightarrow> rat" where
  "fl x =
     (if x = 0 then 0
      else sgn x * of_int (round_half_even (\<bar>x\<bar> * 2 powi (52 - ilog2 \<bar>x\<bar>)))
             * 2 powi (ilog2 \<bar>x\<bar> - 52))"

section \<open>Rendering (lib/ffmpegHelpers.js)\<close>

text \<open>\<open>s.split(c)\<close> for a one-character separator.\<close>

fun split_on :: "char \<Rightarrow> string \<Rightarrow> string list" where
  "split_on c [] = [[]]"
| "split_on c (a # as) =
     (if a = c then [] # split_on c as
      else (a # hd (split_on c as)) # tl (split_on c as))"

definition nth_opt :: "'a list \<Rightarrow> nat \<Rightarrow> 'a option" where
  "nth_opt xs i = (if i < length xs then Some (xs ! i) else None)"

text \<open>\<open>Number.isFinite(w) && w > 0 ? w : dflt\<close>, where \<open>w\<close> may be \<open>undefined\<close>.\<close>

definition dim_or :: "jsnum option \<Rightarrow> rat \<Rightarrow> rat" where
  "dim_or n dflt = (case n of Some (Fin q) \<Rightarrow> if q > 0 then q else dflt | _ \<Rightarrow> dflt)"

text \<open>
  The first three statements of both render functions. \<open>resolution.split\<close> exists on a
  string only; on any other value the call throws.
\<close>

definition parse_resolution :: "(jsval \<Rightarrow> jsnum) \<Rightarrow> jsval \<Rightarrow> exn + rat \<times> rat" where
  "parse_resolution str_num resolution =
     (case resolution of
        JStr r \<Rightarrow>
          (let wh = map (\<lambda>s. let n = Number_js str_num (JStr s)
                              in if truthy (JNum n) then n else Fin 0)
                        (split_on CHR ''x'' r)
           in Inr (dim_or (nth_opt wh 0) 1280, dim_or (nth_opt wh 1) 720))
      | _ \<Rightarrow> Inl (TypeError ''resolution.split is not a function''))"

text \<open>
  A filter of a chain, kept as a value instead of its text:
  \<open>scale=W:H:force_original_aspect_ratio=decrease\<close>, \<open>scale=w:h\<close>,
  \<open>pad=W:H:(ow-iw)/2:(oh-ih)/2\<close> and \<open>setsar=1\<close>.
\<close>

datatype vfilter = ScaleFit rat rat | Scale int int | PadCentered rat rat | SetSar1

record downloaded =
  imagePath :: string
  duration :: jsval
  subtitleText :: jsval
  word_duration :: jsval

text \<open>
  The single-run command: the inputs in the order they were added, each with the value of
  its \<open>-t\<close> option if it got one; the filter chains \<open>[i:v]\<dots>[sv j]\<close> as triples; the
  labels fed to \<open>concat\<close>, in order, with its \<open>n\<close>; the output file. The options that
  are the same for every job (codec, preset, pixel format, frame rate) are left out.
\<close>

record fast_cmd =
  fc_inputs :: "(string \<times> jsval option) list"
  fc_filters :: "(nat \<times> vfilter list \<times> nat) list"
  fc_concat :: "nat list \<times> nat"
  fc_output :: string

record segment_cmd =
  sc_input :: string
  sc_vf :: "vfilter list"
  sc_t :: "jsval option"
  sc_output :: string

datatype effect =
    Mkdir string
  | Fetched nat
  | FastRender fast_cmd
  | SegmentRender segment_cmd
  | Kill string
  | WriteList string "string list"
  | ConcatRender string string
  | Upload string string
  | Rm string

text \<open>
  What the render process does once run: it fails before it starts, or it starts and
  then ends or fails after so many milliseconds, or it never finishes.
\<close>

datatype proc_end = Ends int | Fails int exn | Hangs

datatype proc = NoStart exn | Started proc_end

definition segment_timeout_ms :: int where
  "segment_timeout_ms = 60000"

text \<open>
  createSegmentVideo. \<open>duration\<close> defaults to 3 when it is \<open>undefined\<close>, and \<open>-t\<close> is
  added when it is truthy.
\<close>

definition build_segment_cmd :: "string \<Rightarrow> string \<Rightarrow> rat \<times> rat \<Rightarrow> jsval \<Rightarrow> segment_cmd" where
  "build_segment_cmd imgPath outPath wh dur =
     (let d = (if dur = JUndefined then JNum (Fin 3) else dur)
      in \<lparr> sc_input = imgPath,
           sc_vf = [ScaleFit (fst wh) (snd wh), PadCentered (fst wh) (snd wh)],
           sc_t = (if truthy d then Some d else None),
           sc_output = outPath \<rparr>)"

text \<open>
  The timer is set on \<open>start\<close>; when it fires first the process is killed and the
  promise rejects. An \<open>end\<close> or \<open>error\<close> event counts as first when it comes before
  the 60000 ms are over.
\<close>

definition createSegmentVideo ::
  "(jsval \<Rightarrow> jsnum) \<Rightarrow> (segment_cmd \<Rightarrow> proc) \<Rightarrow> string \<Rightarrow> string \<Rightarrow> jsval \<Rightarrow> jsval
   \<Rightarrow> (exn + string) \<times> effect list"
where
  "createSegmentVideo str_num ffmpeg imgPath outPath resolution dur =
     (case parse_resolution str_num resolution of
        Inl e \<Rightarrow> (Inl e, [])
      | Inr wh \<Rightarrow>
          (let cmd = build_segment_cmd imgPath outPath wh dur
           in case ffmpeg cmd of
                NoStart e \<Rightarrow> (Inl e, [SegmentRender cmd])
              | Started (Ends t) \<Rightarrow>
                  if t < segment_timeout_ms then (Inr outPath, [SegmentRender cmd])
                  else (Inl (Error ''FFmpeg process timed out''), [SegmentRender cmd, Kill outPath])
              | Started (Fails t e) \<Rightarrow>
                  if t < segment_timeout_ms then (Inl e, [SegmentRender cmd])
                  else (Inl (Error ''FFmpeg process timed out''), [SegmentRender cmd, Kill outPath])
              | Started Hangs \<Rightarrow>
                  (Inl (Error ''FFmpeg process timed out''), [SegmentRender cmd, Kill outPath])))"

text \<open>concatVideos: the list file names the clips in the order of \<open>videoPaths\<close>.\<close>

definition dirname :: "string \<Rightarrow> string" where
  "dirname p =
     (if CHR ''/'' \<in> set p then rev (tl (dropWhile (\<lambda>c. c \<noteq> CHR ''/'') (rev p))) else ''.'')"

definition escape_quote :: "string \<Rightarrow> string" where
  "escape_quote p = concat (map (\<lambda>c. if c = CHR 0x27 then [CHR 0x27, CHR 0x5C, CHR 0x27, CHR 0x27] else [c]) p)"

definition concatVideos ::
  "(string \<Rightarrow> string \<Rightarrow> exn option) \<Rightarrow> string list \<Rightarrow> string \<Rightarrow> (exn + string) \<times> effect list"
where
  "concatVideos ffmpeg videoPaths finalOutPath =
     (let listFile = dirname finalOutPath @ ''/filelist.txt'';
          content = map (\<lambda>p. ''file '' @ [CHR 0x27] @ escape_quote p @ [CHR 0x27]) videoPaths;
          tr = [WriteList listFile content, ConcatRender listFile finalOutPath]
      in case ffmpeg listFile finalOutPath of
           None \<Rightarrow> (Inr finalOutPath, tr)
         | Some e \<Rightarrow> (Inl e, tr))"

text \<open>
  createVideoFromSegments. \<open>ffprobe\<close> gives the streams of a file with their width and
  height in pixels (0 when a stream has none), or nothing when it fails.
\<close>

definition probeImage :: "(string \<Rightarrow> (int \<times> int) list option) \<Rightarrow> string \<Rightarrow> int \<times> int" where
  "probeImage ffprobe path =
     (case ffprobe path of
        None \<Rightarrow> (0, 0)
      | Some streams \<Rightarrow>
          (case find (\<lambda>s. fst s \<noteq> 0 \<and> snd s \<noteq> 0) streams of
             None \<Rightarrow> (0, 0)
           | Some vs \<Rightarrow> vs))"

definition scaled_dims :: "rat \<Rightarrow> rat \<Rightarrow> int \<Rightarrow> int \<Rightarrow> int \<times> int" where
  "scaled_dims width height iw ih =
     (let ratioW = fl (width / of_int iw);
          ratioH = fl (height / of_int ih);
          factor = min (min ratioW ratioH) 1;
          scaledW = max 1 \<lfloor>fl (of_int iw * factor)\<rfloor>;
          scaledH = max 1 \<lfloor>fl (of_int ih * factor)\<rfloor>
      in (scaledW, scaledH))"

definition videoFilter :: "rat \<Rightarrow> rat \<Rightarrow> int \<times> int \<Rightarrow> vfilter list" where
  "videoFilter width height d =
     (if fst d = 0 \<or> snd d = 0
      then [ScaleFit width height, PadCentered width height, SetSar1]
      else [Scale (fst (scaled_dims width height (fst d) (snd d)))
                  (snd (scaled_dims width height (fst d) (snd d))),
            PadCentered width height, SetSar1])"

definition input_t :: "(jsval \<Rightarrow> jsnum) \<Rightarrow> jsval \<Rightarrow> jsval option" where
  "input_t str_num d =
     (if \<not> nullish d \<and> isFinite_js (Number_js str_num d) then Some d else None)"

definition build_fast_cmd ::
  "(jsval \<Rightarrow> jsnum) \<Rightarrow> (string \<Rightarrow> (int \<times> int) list option) \<Rightarrow> rat \<Rightarrow> rat \<Rightarrow> downloaded list
   \<Rightarrow> string \<Rightarrow> fast_cmd"
where
  "build_fast_cmd str_num ffprobe width height segments outPath =
     \<lparr> fc_inputs = map (\<lambda>seg. (imagePath seg, input_t str_num (duration seg))) segments,
       fc_filters = map (\<lambda>i. (i, videoFilter width height
                                    (probeImage ffprobe (imagePath (segments ! i))), i))
                        [0 ..< length segments],
       fc_concat = ([0 ..< length segments], length segments),
       fc_output = outPath \<rparr>"

definition createVideoFromSegments ::
  "(jsval \<Rightarrow> jsnum) \<Rightarrow> (string \<Rightarrow> (int \<times> int) list option) \<Rightarrow> (fast_cmd \<Rightarrow> exn option)
   \<Rightarrow> downloaded list \<Rightarrow> string \<Rightarrow> jsval \<Rightarrow> (exn + string) \<times> effect list"
where
  "createVideoFromSegments str_num ffprobe ffmpeg segments outPath resolution =
     (if segments = [] then (Inl (Error ''segments array required''), [])
      else case parse_resolution str_num resolution of
             Inl e \<Rightarrow> (Inl e, [])
           | Inr wh \<Rightarrow>
               (let cmd = build_fast_cmd str_num ffprobe (fst wh) (snd wh) segments outPath
                in case ffmpeg cmd of
                     None \<Rightarrow> (Inr outPath, [FastRender cmd])
                   | Some e \<Rightarrow> (Inl e, [FastRender cmd])))"

text \<open>
  The scaling rule in the words of the description, in exact arithmetic: the factor is
  the least of \<open>W / nativeW\<close>, \<open>H / nativeH\<close> and 1, and each scaled side is the floor of
  the native side times the factor, but at least one pixel.
\<close>

definition scaled_dims_exact :: "rat \<Rightarrow> rat \<Rightarrow> int \<Rightarrow> int \<Rightarrow> int \<times> int" where
  "scaled_dims_exact W H nativeW nativeH =
     (let f = min (min (W / of_int nativeW) (H / of_int nativeH)) 1
      in (max 1 \<lfloor>of_int nativeW * f\<rfloor>, max 1 \<lfloor>of_int nativeH * f\<rfloor>))"

section \<open>Promise.all\<close>

text \<open>
  \<open>Promise.all\<close> over \<open>n\<close> promises, fed with their settlements in the order in which
  they happen: a fulfilment is stored at the index of its promise, the first rejection
  rejects the whole, and the result is the array of stored values once \<open>n\<close> promises have
  fulfilled. \<open>None\<close> means that it never settles.
\<close>

fun promise_all_run ::
  "nat \<Rightarrow> 'a option list \<Rightarrow> (nat \<times> 'a settle) list \<Rightarrow> (exn + 'a list) option"
where
  "promise_all_run remaining vals [] = None"
| "promise_all_run remaining vals ((i, Reject e) # evs) = Some (Inl e)"
| "promise_all_run remaining vals ((i, Fulfil v) # evs) =
     (if remaining - 1 = 0
      then map_option Inr (those (vals[i := Some v]))
      else promise_all_run (remaining - 1) (vals[i := Some v]) evs)"

definition promise_all :: "nat \<Rightarrow> (nat \<times> 'a settle) list \<Rightarrow> (exn + 'a list) option" where
  "promise_all n evs = (if n = 0 then Some (Inr []) else promise_all_run n (replicate n None) evs)"

section \<open>The job handler (server.js, POST /generate-video)\<close>

record subtitle_result =
  srtPath :: jsval
  calculatedDuration :: jsval
  subtitleStyle :: jsval

text \<open>
  Everything outside the process that the handler consults. The two subtitle helpers are
  called by the handler but defined nowhere in the sources at hand, so they are
  parameters here; each may throw. \<open>completion\<close> is the order in which the download
  tasks settle; \<open>network\<close> is what the origin of a URL answers on each attempt;
  \<open>url_ext\<close> is the extension of the path of a URL, with none when the URL does not parse.
\<close>

record world =
  str_num :: "jsval \<Rightarrow> jsnum"
  show_val :: "jsval \<Rightarrow> string"
  production :: bool
  cpus :: int
  temp_root :: string
  uuidv4 :: string
  mkdir :: "string \<Rightarrow> exn option"
  url_ext :: "jsval \<Rightarrow> string option"
  network :: "jsval \<Rightarrow> nat \<Rightarrow> attempt"
  completion :: "nat list"
  getSubtitleStylePresets :: "exn + (string \<Rightarrow> jsval)"
  createSubtitleFile :: "downloaded \<Rightarrow> string \<Rightarrow> nat \<Rightarrow> jsval \<Rightarrow> jsval \<Rightarrow> exn + subtitle_result"
  ffprobe :: "string \<Rightarrow> (int \<times> int) list option"
  ffmpeg_fast :: "fast_cmd \<Rightarrow> exn option"
  ffmpeg_segment :: "segment_cmd \<Rightarrow> proc"
  ffmpeg_concat :: "string \<Rightarrow> string \<Rightarrow> exn option"
  uploadVideoToSupabase :: "string \<Rightarrow> string \<Rightarrow> exn + string"

datatype resp_body =
    ErrorJson string
  | FailureJson string "string + exn"
  | ResultJson string string

text \<open>
  What the client gets: a JSON response with a status, or nothing because the handler
  threw outside its try block, or nothing because it is still waiting.
\<close>

datatype response = Response nat resp_body | Uncaught exn | NoResponse

definition join :: "string \<Rightarrow> string \<Rightarrow> string" where
  "join dir name = dir @ ''/'' @ name"

fun typeof_object :: "jsval \<Rightarrow> bool" where
  "typeof_object JNull = True"
| "typeof_object (JArr xs) = True"
| "typeof_object (JObj kvs) = True"
| "typeof_object v = False"

fun unwrap_body :: "jsval \<Rightarrow> jsval" where
  "unwrap_body (JArr [x]) = (if truthy x \<and> typeof_object x then x else JArr [x])"
| "unwrap_body b = b"

definition is_space :: "char \<Rightarrow> bool" where
  "is_space c = (c \<in> set [CHR 0x09, CHR 0x0A, CHR 0x0B, CHR 0x0C, CHR 0x0D, CHR 0x20])"

definition trim :: "string \<Rightarrow> string" where
  "trim s = rev (dropWhile is_space (rev (dropWhile is_space s)))"

definition jobId_missing :: "jsval \<Rightarrow> bool" where
  "jobId_missing jobId =
     (\<not> truthy jobId \<or> (case jobId of JStr s \<Rightarrow> trim s = [] | _ \<Rightarrow> True))"

definition jobId_string :: "jsval \<Rightarrow> string" where
  "jobId_string jobId = (case jobId of JStr s \<Rightarrow> s | _ \<Rightarrow> [])"

definition to_lower :: "char \<Rightarrow> char" where
  "to_lower c =
     (if (65::nat) \<le> of_char c \<and> of_char c \<le> (90::nat) then char_of (of_char c + (32::nat)) else c)"

text \<open>The subtitle style of the job; the lookup of a preset can throw.\<close>

definition global_style :: "world \<Rightarrow> jsval \<Rightarrow> jsval \<Rightarrow> exn + jsval" where
  "global_style w subtitlePreset subtitleStyle' =
     (if truthy subtitlePreset then
        (case getSubtitleStylePresets w of
           Inl e \<Rightarrow> Inl e
         | Inr presets \<Rightarrow>
             (case subtitlePreset of
                JStr p \<Rightarrow> Inr (js_or (presets (map to_lower p)) (presets ''default''))
              | _ \<Rightarrow> Inl (TypeError ''subtitlePreset.toLowerCase is not a function'')))
      else if truthy subtitleStyle' then Inr subtitleStyle'
      else Inr JNull)"

definition safeExt :: "world \<Rightarrow> jsval \<Rightarrow> string \<Rightarrow> string" where
  "safeExt w urlStr fallback =
     (case url_ext w urlStr of
        None \<Rightarrow> fallback
      | Some e \<Rightarrow> (let e' = hd (split_on CHR ''?'' e) in if e' = [] then fallback else e'))"

text \<open>The task of segment \<open>i\<close> handed to the limiter, with what its promise settles to.\<close>

definition download_task :: "world \<Rightarrow> string \<Rightarrow> nat \<Rightarrow> segment \<Rightarrow> downloaded settle" where
  "download_task w sessionDir i seg =
     (let imgExt = safeExt w (seg_imageUrl seg) ''.png'';
          imgPath = join sessionDir (''img_'' @ show_nat i @ imgExt)
      in case fst (downloadFileToPath (network w (seg_imageUrl seg))
                     (show_val w (seg_imageUrl seg)) imgPath default_options) of
           Inl err \<Rightarrow> Reject err
         | Inr u \<Rightarrow> Fulfil \<lparr> imagePath = imgPath, duration = seg_duration seg,
                              subtitleText = seg_subtitleText seg,
                              word_duration = seg_word_duration seg \<rparr>)"

text \<open>
  \<open>segments.map((seg, i) => limit(\<dots>))\<close> submits the tasks in index order, all before any
  of them settles; afterwards they settle in the order of \<open>completion\<close> (only a task
  that was submitted can settle). The result is the list of settlements of the promises
  that the limiter returned, in time order.
\<close>

definition downloadTasks :: "world \<Rightarrow> string \<Rightarrow> segment list \<Rightarrow> (nat \<times> downloaded settle) list" where
  "downloadTasks w sessionDir segments =
     settled (run (MAX_CONCURRENCY (cpus w))
       (map Call [0 ..< length segments] @
        map (\<lambda>i. Done i (download_task w sessionDir i (segments ! i)))
          (filter (\<lambda>i. i < length segments) (completion w))))"

definition no_subtitle :: subtitle_result where
  "no_subtitle = \<lparr> srtPath = JNull, calculatedDuration = JNull, subtitleStyle = JNull \<rparr>"

fun subtitleResults ::
  "world \<Rightarrow> string \<Rightarrow> jsval \<Rightarrow> nat \<Rightarrow> downloaded list \<Rightarrow> exn + subtitle_result list"
where
  "subtitleResults w sessionDir style i [] = Inr []"
| "subtitleResults w sessionDir style i (seg # rest) =
     (case (if truthy (js_or (subtitleText seg) (word_duration seg))
            then createSubtitleFile w seg sessionDir i (duration seg) style
            else Inr no_subtitle) of
        Inl e \<Rightarrow> Inl e
      | Inr r \<Rightarrow>
          (case subtitleResults w sessionDir style (Suc i) rest of
             Inl e \<Rightarrow> Inl e
           | Inr rs \<Rightarrow> Inr (r # rs)))"

text \<open>The \<open>forEach\<close> that overwrites a duration with the one computed from word timing.\<close>

definition update_duration :: "downloaded \<Rightarrow> subtitle_result \<Rightarrow> downloaded" where
  "update_duration seg r =
     (if truthy (calculatedDuration r) then seg \<lparr> duration := calculatedDuration r \<rparr> else seg)"

fun findIndex :: "('a \<Rightarrow> bool) \<Rightarrow> 'a list \<Rightarrow> nat option" where
  "findIndex P [] = None"
| "findIndex P (x # xs) = (if P x then Some 0 else map_option Suc (findIndex P xs))"

definition missing_duration :: "world \<Rightarrow> downloaded \<Rightarrow> bool" where
  "missing_duration w s =
     (nullish (duration s) \<or> \<not> isFinite_js (Number_js (str_num w) (duration s)))"

definition validation_message :: "nat \<Rightarrow> string" where
  "validation_message i =
     ''Payload validation failed: each segment must include a numeric '' @ [CHR 0x27] @
     ''duration'' @ [CHR 0x27] @ '' in seconds (missing or invalid at index '' @
     show_nat i @ '')''"

text \<open>The \<open>for\<close> loop of the fallback: the first render that rejects ends it.\<close>

fun fallback_loop ::
  "world \<Rightarrow> string \<Rightarrow> jsval \<Rightarrow> nat \<Rightarrow> downloaded list \<Rightarrow> (exn + string list) \<times> effect list"
where
  "fallback_loop w sessionDir resolution i [] = (Inr [], [])"
| "fallback_loop w sessionDir resolution i (seg # rest) =
     (case createSegmentVideo (str_num w) (ffmpeg_segment w) (imagePath seg)
             (join sessionDir (''seg_'' @ show_nat i @ ''.mp4'')) resolution (duration seg) of
        (Inl e, tr) \<Rightarrow> (Inl e, tr)
      | (Inr segOut, tr) \<Rightarrow>
          (case fallback_loop w sessionDir resolution (Suc i) rest of
             (Inl e, tr') \<Rightarrow> (Inl e, tr @ tr')
           | (Inr paths, tr') \<Rightarrow> (Inr (segOut # paths), tr @ tr')))"

text \<open>Step 3 of the try block: the single run and, when it throws, the fallback.\<close>

definition compose ::
  "world \<Rightarrow> string \<Rightarrow> jsval \<Rightarrow> downloaded list \<Rightarrow> (exn + string) \<times> effect list"
where
  "compose w sessionDir resolution segs =
     (let finalPath = join sessionDir ''final.mp4'' in
      case createVideoFromSegments (str_num w) (ffprobe w) (ffmpeg_fast w) segs finalPath resolution of
        (Inr p, tr) \<Rightarrow> (Inr finalPath, tr)
      | (Inl singleErr, tr) \<Rightarrow>
          (case fallback_loop w sessionDir resolution 0 segs of
             (Inl e, tr') \<Rightarrow> (Inl e, tr @ tr')
           | (Inr segVideoPaths, tr') \<Rightarrow>
               (case concatVideos (ffmpeg_concat w) segVideoPaths finalPath of
                  (Inl e, tr'') \<Rightarrow> (Inl e, tr @ tr' @ tr'')
                | (Inr p, tr'') \<Rightarrow> (Inr finalPath, tr @ tr' @ tr''))))"

text \<open>
  The steps after the downloads: subtitles, the update of the durations, the check of
  the durations, the composition and the upload. The result is the URL or the error
  thrown, with the effects in order.
\<close>

definition after_download ::
  "world \<Rightarrow> string \<Rightarrow> jsval \<Rightarrow> jsval \<Rightarrow> string \<Rightarrow> downloaded list \<Rightarrow> (exn + string) \<times> effect list"
where
  "after_download w sessionDir resolution style jobId segs =
     (case subtitleResults w sessionDir style 0 segs of
        Inl e \<Rightarrow> (Inl e, [])
      | Inr results \<Rightarrow>
          (let updated = map2 update_duration segs results in
           case findIndex (missing_duration w) updated of
             Some i \<Rightarrow> (Inl (Error (validation_message i)), [])
           | None \<Rightarrow>
               (case compose w sessionDir resolution updated of
                  (Inl e, tr) \<Rightarrow> (Inl e, tr)
                | (Inr finalPath, tr) \<Rightarrow>
                    (case uploadVideoToSupabase w finalPath jobId of
                       Inl e \<Rightarrow> (Inl e, tr @ [Upload finalPath jobId])
                     | Inr url \<Rightarrow> (Inr url, tr @ [Upload finalPath jobId])))))"

text \<open>The body of the try block; \<open>None\<close> when the downloads never all settle.\<close>

definition try_body ::
  "world \<Rightarrow> string \<Rightarrow> jsval \<Rightarrow> jsval \<Rightarrow> string \<Rightarrow> segment list
   \<Rightarrow> (exn + string) option \<times> effect list"
where
  "try_body w sessionDir resolution style jobId segments =
     (let tasks = downloadTasks w sessionDir segments;
          fetched = map (\<lambda>t. Fetched (fst t)) tasks
      in case promise_all (length segments) tasks of
           None \<Rightarrow> (None, fetched)
         | Some (Inl e) \<Rightarrow> (Some (Inl e), fetched)
         | Some (Inr segs) \<Rightarrow>
             (case after_download w sessionDir resolution style jobId segs of
                (r, tr) \<Rightarrow> (Some r, fetched @ tr)))"

definition failure_details :: "world \<Rightarrow> exn \<Rightarrow> string + exn" where
  "failure_details w err =
     (if production w then Inl ''Internal server error''
      else if message err \<noteq> [] then Inl (message err) else Inr err)"

definition generate_video :: "world \<Rightarrow> jsval \<Rightarrow> response \<times> effect list" where
  "generate_video w req_body =
     (let body = unwrap_body req_body;
          b = (if truthy body then body else JObj []);
          jobId = getprop b ''jobId'';
          rawSegments = getprop b ''segments'';
          resolution = (if getprop b ''resolution'' = JUndefined then JStr ''1280x720''
                        else getprop b ''resolution'')
      in if jobId_missing jobId
         then (Response 400 (ErrorJson ''jobId required in request body''), [])
         else case global_style w (getprop b ''subtitlePreset'') (getprop b ''subtitleStyle'') of
           Inl e \<Rightarrow> (Uncaught e, [])
         | Inr style \<Rightarrow>
             (case rawSegments of
                JArr (s # ss) \<Rightarrow>
                  (let segments = map normalize_segment (s # ss);
                       sessionDir = join (temp_root w) (uuidv4 w)
                   in case mkdir w sessionDir of
                        Some e \<Rightarrow> (Uncaught e, [Mkdir sessionDir])
                      | None \<Rightarrow>
                          (case try_body w sessionDir resolution style (jobId_string jobId) segments of
                             (None, tr) \<Rightarrow> (NoResponse, Mkdir sessionDir # tr)
                           | (Some (Inr url), tr) \<Rightarrow>
                               (Response 200 (ResultJson (jobId_string jobId) url),
                                Mkdir sessionDir # tr @ [Rm sessionDir])
                           | (Some (Inl err), tr) \<Rightarrow>
                               (Response 500 (FailureJson ''Video generation failed''
                                                (failure_details w err)),
                                Mkdir sessionDir # tr @
                                  (if production w then [Rm sessionDir] else []))))
              | _ \<Rightarrow> (Response 400 (ErrorJson ''segments array required''), [])))"

text \<open>
  Names used in the statements about the fallback: the render of the clip of segment \<open>j\<close>
  as the loop calls it, and the processes that are still running when the timer fires.
\<close>

definition render_at ::
  "world \<Rightarrow> string \<Rightarrow> jsval \<Rightarrow> nat \<Rightarrow> downloaded \<Rightarrow> (exn + string) \<times> effect list"
where
  "render_at w sessionDir resolution i seg =
     createSegmentVideo (str_num w) (ffmpeg_segment w) (imagePath seg)
       (join sessionDir (''seg_'' @ show_nat i @ ''.mp4'')) resolution (duration seg)"

definition segment_render ::
  "world \<Rightarrow> string \<Rightarrow> jsval \<Rightarrow> downloaded list \<Rightarrow> nat \<Rightarrow> (exn + string) \<times> effect list"
where
  "segment_render w sessionDir resolution segs j = render_at w sessionDir resolution j (segs ! j)"

fun runs_into_timeout :: "proc \<Rightarrow> bool" where
  "runs_into_timeout (NoStart e) = False"
| "runs_into_timeout (Started (Ends t)) = (t \<ge> segment_timeout_ms)"
| "runs_into_timeout (Started (Fails t e)) = (t \<ge> segment_timeout_ms)"
| "runs_into_timeout (Started Hangs) = True"

text \<open>
  Names used in the statement about the order of the scenes: the file into which the
  image of segment \<open>i\<close> is downloaded, the clip of segment \<open>j\<close> in the fallback, a line of
  the list file, and the per-segment render commands among a list of effects, in order.
\<close>

definition img_path :: "world \<Rightarrow> string \<Rightarrow> segment list \<Rightarrow> nat \<Rightarrow> string" where
  "img_path w sessionDir segments i =
     join sessionDir (''img_'' @ show_nat i @ safeExt w (seg_imageUrl (segments ! i)) ''.png'')"

definition seg_path :: "string \<Rightarrow> nat \<Rightarrow> string" where
  "seg_path sessionDir j = join sessionDir (''seg_'' @ show_nat j @ ''.mp4'')"

definition file_line :: "string \<Rightarrow> string" where
  "file_line p = ''file '' @ [CHR 0x27] @ escape_quote p @ [CHR 0x27]"

fun segment_cmds :: "effect list \<Rightarrow> segment_cmd list" where
  "segment_cmds [] = []"
| "segment_cmds (SegmentRender c # es) = c # segment_cmds es"
| "segment_cmds (e # es) = segment_cmds es"

section \<open>Example worlds and requests\<close>

text \<open>
  A world in which every download, render and upload succeeds, the second download
  finishes before the first, the probe of an image fails, and the subtitle helpers are
  the unbound names they are in server.js.
\<close>

definition world_ok :: world where
  "world_ok =
     \<lparr> str_num = (\<lambda>v. if v = JStr ''1280'' then Fin 1280
                       else if v = JStr ''720'' then Fin 720 else NaN),
       show_val = (\<lambda>v. case v of JStr s \<Rightarrow> s | _ \<Rightarrow> ''undefined''),
       production = False,
       cpus = 4,
       temp_root = ''/app/temp'',
       uuidv4 = ''s1'',
       mkdir = (\<lambda>p. None),
       url_ext = (\<lambda>u. Some ''.png''),
       network = (\<lambda>u k. GetResp (Some 200) WriteOk),
       completion = [1, 0],
       getSubtitleStylePresets = Inl (ReferenceError ''getSubtitleStylePresets is not defined''),
       createSubtitleFile =
         (\<lambda>seg dir i d st. Inl (ReferenceError ''createSubtitleFile is not defined'')),
       ffprobe = (\<lambda>p. None),
       ffmpeg_fast = (\<lambda>c. None),
       ffmpeg_segment = (\<lambda>c. Started (Ends 1000)),
       ffmpeg_concat = (\<lambda>l f. None),
       uploadVideoToSupabase = (\<lambda>p j. Inr (''https://store/'' @ j @ ''.mp4'')) \<rparr>"

definition segment_a :: jsval where
  "segment_a = JObj [(''imageUrl'', JStr ''http://host/a.png''), (''duration'', JNum (Fin 3))]"

definition segment_b :: jsval where
  "segment_b = JObj [(''image'', JStr ''http://host/b.png''), (''duration'', JNum (Fin 4))]"

definition request_two :: jsval where
  "request_two = JObj [(''jobId'', JStr ''job-123''), (''segments'', JArr [segment_a, segment_b])]"

definition request_preset_no_segments :: jsval where
  "request_preset_no_segments =
     JObj [(''jobId'', JStr ''job-1''), (''subtitlePreset'', JBool True), (''segments'', JArr [])]"

definition request_zero_duration :: jsval where
  "request_zero_duration =
     JObj [(''jobId'', JStr ''job-0''),
           (''segments'', JArr [JObj [(''imageUrl'', JStr ''http://host/a.png''),
                                     (''duration'', JNum (Fin 0))]])]"

definition segment_no_duration :: jsval where
  "segment_no_duration = JObj [(''imageUrl'', JStr ''http://host/c.png'')]"

text \<open>The effects that belong to the composition of the video.\<close>

fun composition_effect :: "effect \<Rightarrow> bool" where
  "composition_effect (FastRender c) = True"
| "composition_effect (SegmentRender c) = True"
| "composition_effect (Kill p) = True"
| "composition_effect (WriteList p ls) = True"
| "composition_effect (ConcatRender p q) = True"
| "composition_effect e = False"

definition downloaded_a :: downloaded where
  "downloaded_a =
     \<lparr> imagePath = ''/app/temp/s1/img_0.png'', duration = JNum (Fin 3),
       subtitleText = JUndefined, word_duration = JUndefined \<rparr>"

definition downloaded_b :: downloaded where
  "downloaded_b =
     \<lparr> imagePath = ''/app/temp/s1/img_1.png'', duration = JNum (Fin 4),
       subtitleText = JUndefined, word_duration = JUndefined \<rparr>"

definition downloaded_no_duration :: downloaded where
  "downloaded_no_duration =
     \<lparr> imagePath = ''/app/temp/s1/img_1.png'', duration = JUndefined,
       subtitleText = JUndefined, word_duration = JUndefined \<rparr>"

definition fast_cmd_zero :: fast_cmd where
  "fast_cmd_zero =
     \<lparr> fc_inputs = [(''/app/temp/s1/img_0.png'', Some (JNum (Fin 0)))],
       fc_filters = [(0, [ScaleFit 1280 720, PadCentered 1280 720, SetSar1], 0)],
       fc_concat = ([0], 1),
       fc_output = ''/app/temp/s1/final.mp4'' \<rparr>"

definition fast_cmd_two :: fast_cmd where
  "fast_cmd_two =
     \<lparr> fc_inputs = [(''/app/temp/s1/img_0.png'', Some (JNum (Fin 3))),
                    (''/app/temp/s1/img_1.png'', Some (JNum (Fin 4)))],
       fc_filters = [(0, [ScaleFit 1280 720, PadCentered 1280 720, SetSar1], 0),
                     (1, [ScaleFit 1280 720, PadCentered 1280 720, SetSar1], 1)],
       fc_concat = ([0, 1], 2),
       fc_output = ''/app/temp/s1/final.mp4'' \<rparr>"

text \<open>
  The same world, except that the single run fails and a clip rendered without \<open>-t\<close>
  (the image is looped for ever) never finishes.
\<close>

definition world_untimed_clip_hangs :: world where
  "world_untimed_clip_hangs =
     \<lparr> str_num = (\<lambda>v. if v = JStr ''1280'' then Fin 1280
                       else if v = JStr ''720'' then Fin 720 else NaN),
       show_val = (\<lambda>v. case v of JStr s \<Rightarrow> s | _ \<Rightarrow> ''undefined''),
       production = False,
       cpus = 4,
       temp_root = ''/app/temp'',
       uuidv4 = ''s1'',
       mkdir = (\<lambda>p. None),
       url_ext = (\<lambda>u. Some ''.png''),
       network = (\<lambda>u k. GetResp (Some 200) WriteOk),
       completion = [1, 0],
       getSubtitleStylePresets = Inl (ReferenceError ''getSubtitleStylePresets is not defined''),
       createSubtitleFile =
         (\<lambda>seg dir i d st. Inl (ReferenceError ''createSubtitleFile is not defined'')),
       ffprobe = (\<lambda>p. None),
       ffmpeg_fast = (\<lambda>c. Some (Error ''Error initializing complex filters'')),
       ffmpeg_segment = (\<lambda>c. case sc_t c of None \<Rightarrow> Started Hangs
                                | Some d \<Rightarrow> Started (Ends 1000)),
       ffmpeg_concat = (\<lambda>l f. None),
       uploadVideoToSupabase = (\<lambda>p j. Inr (''https://store/'' @ j @ ''.mp4'')) \<rparr>"

definition downloaded_zero :: downloaded where
  "downloaded_zero =
     \<lparr> imagePath = ''/app/temp/s1/img_1.png'', duration = JNum (Fin 0),
       subtitleText = JUndefined, word_duration = JUndefined \<rparr>"

definition fast_cmd_a_zero :: fast_cmd where
  "fast_cmd_a_zero =
     \<lparr> fc_inputs = [(''/app/temp/s1/img_0.png'', Some (JNum (Fin 3))),
                    (''/app/temp/s1/img_1.png'', Some (JNum (Fin 0)))],
       fc_filters = [(0, [ScaleFit 1280 720, PadCentered 1280 720, SetSar1], 0),
                     (1, [ScaleFit 1280 720, PadCentered 1280 720, SetSar1], 1)],
       fc_concat = ([0, 1], 2),
       fc_output = ''/app/temp/s1/final.mp4'' \<rparr>"

definition segment_cmd_zero :: segment_cmd where
  "segment_cmd_zero =
     \<lparr> sc_input = ''/app/temp/s1/img_1.png'',
       sc_vf = [ScaleFit 1280 720, PadCentered 1280 720],
       sc_t = None,
       sc_output = ''/app/temp/s1/seg_1.mp4'' \<rparr>"

definition segment_cmd_a :: segment_cmd where
  "segment_cmd_a =
     \<lparr> sc_input = ''/app/temp/s1/img_0.png'',
       sc_vf = [ScaleFit 1280 720, PadCentered 1280 720],
       sc_t = Some (JNum (Fin 3)),
       sc_output = ''/app/temp/s1/seg_0.mp4'' \<rparr>"

definition segment_cmd_b :: segment_cmd where
  "segment_cmd_b =
     \<lparr> sc_input = ''/app/temp/s1/img_1.png'',
       sc_vf = [ScaleFit 1280 720, PadCentered 1280 720],
       sc_t = Some (JNum (Fin 4)),
       sc_output = ''/app/temp/s1/seg_1.mp4'' \<rparr>"

section \<open>Properties of the concurrency limiter\<close>

lemma lim_inv_init: "0 \<le> c \<Longrightarrow> lim_inv c pLimit"
  by (simp add: lim_inv_def pLimit_def)

lemma lim_inv_next:
  assumes a1: "active st = int (length (running st))" and a2: "active st \<le> c"
    and a3: "admitted st @ map fst (queue st) = submitted st"
    and a4: "mset (submitted st) =
       mset (map snd (queue st)) + mset (map snd (running st)) + mset (map fst (settled st))"
    and a5: "\<forall>e \<in> set (queue st) \<union> set (running st). fst e = snd e"
    and a6: "tl (queue st) \<noteq> [] \<longrightarrow> active st \<ge> c - 1"
  shows "lim_inv c (next_fn c st)"
proof (cases "queue st = [] \<or> active st \<ge> c")
  case True
  then have "next_fn c st = st" by (simp add: next_fn_def)
  moreover have "queue st \<noteq> [] \<longrightarrow> active st = c" using True a2 by auto
  ultimately show ?thesis using a1 a2 a3 a4 a5 unfolding lim_inv_def by simp
next
  case False
  then obtain e es where q: "queue st = e # es" by (cases "queue st") auto
  let ?st = "st \<lparr> active := active st + 1, queue := tl (queue st),
                running := running st @ [hd (queue st)],
                admitted := admitted st @ [fst (hd (queue st))] \<rparr>"
  have n: "next_fn c st = ?st" using False by (simp add: next_fn_def)
  have b1: "active ?st = int (length (running ?st))" using a1 by simp
  have b2: "active ?st \<le> c" using False by simp
  have b3: "admitted ?st @ map fst (queue ?st) = submitted ?st" using a3 q by simp
  have b4: "mset (submitted ?st) =
      mset (map snd (queue ?st)) + mset (map snd (running ?st)) + mset (map fst (settled ?st))"
    using a4 q by simp
  have b5: "\<forall>e \<in> set (queue ?st) \<union> set (running ?st). fst e = snd e"
    using a5 q by (simp add: ball_Un)
  have b6: "queue ?st \<noteq> [] \<longrightarrow> active ?st = c" using a6 False by auto
  show ?thesis unfolding n lim_inv_def using b1 b2 b3 b4 b5 b6 by blast
qed

lemma lim_inv_limit:
  assumes inv: "lim_inv c st" shows "lim_inv c (limit c k st)"
  unfolding limit_def
proof (rule lim_inv_next)
  let ?st = "st \<lparr> queue := queue st @ [(k, k)], submitted := submitted st @ [k] \<rparr>"
  show "active ?st = int (length (running ?st))" using inv by (simp add: lim_inv_def)
  show "active ?st \<le> c" using inv by (simp add: lim_inv_def)
  show "admitted ?st @ map fst (queue ?st) = submitted ?st" using inv by (simp add: lim_inv_def)
  show "mset (submitted ?st) =
      mset (map snd (queue ?st)) + mset (map snd (running ?st)) + mset (map fst (settled ?st))"
    using inv by (simp add: lim_inv_def)
  show "\<forall>e \<in> set (queue ?st) \<union> set (running ?st). fst e = snd e"
    using inv by (simp add: lim_inv_def ball_Un)
  show "tl (queue ?st) \<noteq> [] \<longrightarrow> active ?st \<ge> c - 1"
    using inv by (cases "queue st") (simp_all add: lim_inv_def)
qed

lemma find_fst_in: "find (\<lambda>e. fst e = f) xs = Some e \<Longrightarrow> e \<in> set xs \<and> fst e = f"
  by (induction xs) (auto split: if_splits)

lemma mset_map_remove1:
  "e \<in> set xs \<Longrightarrow> mset (map g xs) = add_mset (g e) (mset (map g (remove1 e xs)))"
  by (induction xs) auto

lemma lim_inv_on_settle:
  assumes inv: "lim_inv c st" shows "lim_inv c (on_settle c f r st)"
proof (cases "find (\<lambda>e. fst e = f) (running st)")
  case None
  with inv show ?thesis by (simp add: on_settle_def)
next
  case (Some e)
  have e: "e \<in> set (running st)" using find_fst_in[OF Some] by simp
  then have pos: "length (running st) > 0" by (rule length_pos_if_in_set)
  have len: "length (remove1 e (running st)) = length (running st) - 1"
    using e by (simp add: length_remove1)
  have ms: "mset (map snd (running st)) =
      add_mset (snd e) (mset (map snd (remove1 e (running st))))"
    using e by (rule mset_map_remove1)
  have sub: "set (remove1 e (running st)) \<subseteq> set (running st)" by (rule set_remove1_subset)
  let ?st = "st \<lparr> active := active st - 1, running := remove1 e (running st),
                settled := settled st @ [(snd e, r)] \<rparr>"
  have "lim_inv c (next_fn c ?st)"
  proof (rule lim_inv_next)
    have "active st = int (length (running st))" using inv by (simp add: lim_inv_def)
    moreover have "int (length (remove1 e (running st))) = int (length (running st)) - 1"
      using pos len by arith
    ultimately show "active ?st = int (length (running ?st))" by simp
    show "active ?st \<le> c" using inv by (simp add: lim_inv_def)
    show "admitted ?st @ map fst (queue ?st) = submitted ?st" using inv by (simp add: lim_inv_def)
    show "mset (submitted ?st) =
        mset (map snd (queue ?st)) + mset (map snd (running ?st)) + mset (map fst (settled ?st))"
      using inv ms by (simp add: lim_inv_def)
    show "\<forall>e \<in> set (queue ?st) \<union> set (running ?st). fst e = snd e"
    proof -
      have "\<forall>e \<in> set (queue st) \<union> set (running st). fst e = snd e"
        using inv by (simp add: lim_inv_def)
      then show ?thesis using sub by auto
    qed
    show "tl (queue ?st) \<noteq> [] \<longrightarrow> active ?st \<ge> c - 1"
      using inv by (cases "queue st") (simp_all add: lim_inv_def)
  qed
  with Some show ?thesis by (simp add: on_settle_def)
qed

lemma lim_inv_step: "lim_inv c st \<Longrightarrow> lim_inv c (step c st ev)"
  by (cases ev) (simp_all add: lim_inv_limit lim_inv_on_settle)

lemma lim_inv_foldl: "lim_inv c st \<Longrightarrow> lim_inv c (foldl (step c) st evs)"
  by (induction evs arbitrary: st) (simp_all add: lim_inv_step)

lemma lim_inv_run: "0 \<le> c \<Longrightarrow> lim_inv c (run c evs)"
  unfolding run_def by (rule lim_inv_foldl) (rule lim_inv_init)

lemma settled_next: "settled (next_fn c st) = settled st"
  by (simp add: next_fn_def)

lemma settled_step:
  assumes "lim_inv c st" "(p, r) \<in> set (settled (step c st ev))"
  shows "(p, r) \<in> set (settled st) \<or> ev = Done p r"
proof (cases ev)
  case (Call k)
  with assms show ?thesis by (simp add: limit_def settled_next)
next
  case (Done f r')
  show ?thesis
  proof (cases "find (\<lambda>e. fst e = f) (running st)")
    case None
    with assms Done show ?thesis by (simp add: on_settle_def)
  next
    case (Some e)
    have "e \<in> set (running st)" "fst e = f" using find_fst_in[OF Some] by simp_all
    with assms(1) have "snd e = f" by (auto simp: lim_inv_def)
    with assms Done Some show ?thesis by (auto simp: on_settle_def settled_next)
  qed
qed

lemma settled_run:
  assumes "0 \<le> c" shows "(p, r) \<in> set (settled (run c evs)) \<Longrightarrow> Done p r \<in> set evs"
proof (induction evs arbitrary: p r rule: rev_induct)
  case Nil
  then show ?case by (simp add: run_def pLimit_def)
next
  case (snoc ev evs)
  have "lim_inv c (run c evs)" using assms by (rule lim_inv_run)
  moreover have "run c (evs @ [ev]) = step c (run c evs) ev" by (simp add: run_def)
  ultimately have "(p, r) \<in> set (settled (run c evs)) \<or> ev = Done p r"
    using snoc.prems settled_step by metis
  with snoc.IH show ?case by auto
qed

text \<open>
  Whether a task fulfils or rejects makes no difference to the limiter: the queue, the
  counter, the started tasks and the admission order after the event are the same.
\<close>

lemma on_settle_outcome_irrelevant:
  "queue (on_settle c f r st) = queue (on_settle c f r' st) \<and>
   active (on_settle c f r st) = active (on_settle c f r' st) \<and>
   running (on_settle c f r st) = running (on_settle c f r' st) \<and>
   admitted (on_settle c f r st) = admitted (on_settle c f r' st)"
  by (cases "find (\<lambda>e. fst e = f) (running st)") (simp_all add: on_settle_def next_fn_def)

text \<open>
  C4. With pool size \<open>N = max 1 (ncpus - 1)\<close>, after any sequence of submissions and
  completions: the counter equals the number of tasks in flight and never exceeds \<open>N\<close>;
  the tasks admitted so far followed by the waiting ones are the submissions in arrival
  order (first in, first out); every submitted task is waiting, in flight or settled, and
  in one of the three only; a promise is settled only with the result its own task
  reported; a task waits only while the pool is full, whatever the earlier tasks returned,
  so that when nothing is in flight nothing waits; and a rejection leaves the limiter in
  the state a fulfilment would have left it in.
\<close>

theorem pLimit_bounded_fifo_independent:
  "1 \<le> MAX_CONCURRENCY ncpus \<and>
   active (run (MAX_CONCURRENCY ncpus) evs) = int (length (running (run (MAX_CONCURRENCY ncpus) evs))) \<and>
   int (length (running (run (MAX_CONCURRENCY ncpus) evs))) \<le> MAX_CONCURRENCY ncpus \<and>
   admitted (run (MAX_CONCURRENCY ncpus) evs) @ map fst (queue (run (MAX_CONCURRENCY ncpus) evs))
     = submitted (run (MAX_CONCURRENCY ncpus) evs) \<and>
   mset (submitted (run (MAX_CONCURRENCY ncpus) evs)) =
     mset (map snd (queue (run (MAX_CONCURRENCY ncpus) evs))) +
     mset (map snd (running (run (MAX_CONCURRENCY ncpus) evs))) +
     mset (map fst (settled (run (MAX_CONCURRENCY ncpus) evs))) \<and>
   (\<forall>pr \<in> set (settled (run (MAX_CONCURRENCY ncpus) evs)). Done (fst pr) (snd pr) \<in> set evs) \<and>
   (queue (run (MAX_CONCURRENCY ncpus) evs) \<noteq> [] \<longrightarrow>
      int (length (running (run (MAX_CONCURRENCY ncpus) evs))) = MAX_CONCURRENCY ncpus) \<and>
   (running (run (MAX_CONCURRENCY ncpus) evs) = [] \<longrightarrow> queue (run (MAX_CONCURRENCY ncpus) evs) = []) \<and>
   queue (run (MAX_CONCURRENCY ncpus) (evs @ [Done f (Reject e)])) =
     queue (run (MAX_CONCURRENCY ncpus) (evs @ [Done f (Fulfil v)])) \<and>
   running (run (MAX_CONCURRENCY ncpus) (evs @ [Done f (Reject e)])) =
     running (run (MAX_CONCURRENCY ncpus) (evs @ [Done f (Fulfil v)])) \<and>
   admitted (run (MAX_CONCURRENCY ncpus) (evs @ [Done f (Reject e)])) =
     admitted (run (MAX_CONCURRENCY ncpus) (evs @ [Done f (Fulfil v)]))"
proof -
  let ?c = "MAX_CONCURRENCY ncpus"
  let ?st = "run ?c evs"
  have c1: "1 \<le> ?c" by (simp add: MAX_CONCURRENCY_def)
  then have c0: "0 \<le> ?c" by simp
  have inv: "lim_inv ?c ?st" using c0 by (rule lim_inv_run)
  have act: "active ?st = int (length (running ?st))" using inv unfolding lim_inv_def by blast
  have "active ?st \<le> ?c" using inv unfolding lim_inv_def by blast
  then have bound: "int (length (running ?st)) \<le> ?c" using act by simp
  have fifo: "admitted ?st @ map fst (queue ?st) = submitted ?st"
    using inv unfolding lim_inv_def by blast
  have part: "mset (submitted ?st) =
      mset (map snd (queue ?st)) + mset (map snd (running ?st)) + mset (map fst (settled ?st))"
    using inv unfolding lim_inv_def by blast
  have own: "\<forall>pr \<in> set (settled ?st). Done (fst pr) (snd pr) \<in> set evs"
    using settled_run[OF c0, of _ _ evs] by auto
  have full0: "queue ?st \<noteq> [] \<longrightarrow> active ?st = ?c"
    using inv unfolding lim_inv_def by blast
  have full: "queue ?st \<noteq> [] \<longrightarrow> int (length (running ?st)) = ?c"
    using full0 act by simp
  have idle: "running ?st = [] \<longrightarrow> queue ?st = []"
  proof
    assume "running ?st = []"
    then have "int (length (running ?st)) \<noteq> ?c" using c1 by simp
    with full show "queue ?st = []" by blast
  qed
  have snoc: "\<And>ev. run ?c (evs @ [ev]) = step ?c ?st ev" by (simp add: run_def)
  have same: "queue (run ?c (evs @ [Done f (Reject e)])) = queue (run ?c (evs @ [Done f (Fulfil v)]))"
    "running (run ?c (evs @ [Done f (Reject e)])) = running (run ?c (evs @ [Done f (Fulfil v)]))"
    "admitted (run ?c (evs @ [Done f (Reject e)])) = admitted (run ?c (evs @ [Done f (Fulfil v)]))"
    using on_settle_outcome_irrelevant[of ?c f "Reject e" ?st "Fulfil v"] by (simp_all add: snoc)
  show ?thesis using c1 act bound fifo part own full idle same by blast
qed

theorem pLimit_bounded_fifo_independent_witness:
  "MAX_CONCURRENCY 3 = 2 \<and>
   queue (run (MAX_CONCURRENCY 3) limiter_example) = [(3, 3)] \<and>
   map fst (running (run (MAX_CONCURRENCY 3) limiter_example)) = [1, 2] \<and>
   admitted (run (MAX_CONCURRENCY 3) limiter_example) = [0, 1, 2] \<and>
   settled (run (MAX_CONCURRENCY 3) limiter_example) = [(0, Reject (Error ''boom''))] \<and>
   Done 0 (Reject (Error ''boom'')) \<in> set limiter_example \<and>
   int (length (running (run (MAX_CONCURRENCY 3) limiter_example))) = MAX_CONCURRENCY 3"
  using pLimit_bounded_fifo_independent [of 3 limiter_example]
  by (simp add: MAX_CONCURRENCY_def limiter_example_def run_def pLimit_def limit_def
      on_settle_def next_fn_def)

section \<open>Properties of the segment normaliser\<close>

lemma first_present_4:
  "first_present P [a, b, c, d] s =
     (if P (getprop s a) then getprop s a
      else if P (getprop s b) then getprop s b
      else if P (getprop s c) then getprop s c
      else getprop s d)"
  by (simp add: first_present_def)

lemma first_present_3:
  "first_present P [a, b, c] s =
     (if P (getprop s a) then getprop s a
      else if P (getprop s b) then getprop s b
      else getprop s c)"
  by (simp add: first_present_def)

text \<open>
  C8 as stated fails. A segment whose \<open>imageUrl\<close> field is there and holds the empty
  string, and whose \<open>image\<close> field holds a URL, is normalised to the URL of \<open>image\<close>:
  the later alias is used although the first one is present.
\<close>

theorem normalize_segment_first_present_counterexample:
  "is_present (getprop segment_empty_imageUrl ''imageUrl'') \<and>
   first_present is_present [''imageUrl'', ''image_Url'', ''image_url'', ''image'']
     segment_empty_imageUrl = JStr [] \<and>
   seg_imageUrl (normalize_segment segment_empty_imageUrl) = JStr ''http://host/a.png''"
  by (simp add: segment_empty_imageUrl_def normalize_segment_def first_present_4 is_present_def
      js_and_def js_or_def)

text \<open>
  C8, amended. For a segment that is itself truthy, \<open>imageUrl\<close> is the first truthy
  value among \<open>imageUrl\<close>, \<open>image_Url\<close>, \<open>image_url\<close> (an empty string, zero,
  \<open>false\<close>, \<open>null\<close> and a missing field all count as absent) and otherwise whatever
  \<open>image\<close> holds; \<open>duration\<close> is the first value that is neither \<open>null\<close> nor
  \<open>undefined\<close> among \<open>duration\<close>, \<open>length\<close> and otherwise what \<open>time\<close> holds;
  \<open>id\<close> likewise from \<open>id\<close>, \<open>ID\<close>, \<open>index\<close>. A segment that is falsy is
  copied into every field.
\<close>

theorem normalize_segment_first_wins:
  "seg_imageUrl (normalize_segment s) =
     (if truthy s
      then first_present truthy [''imageUrl'', ''image_Url'', ''image_url'', ''image''] s
      else s) \<and>
   seg_duration (normalize_segment s) =
     (if truthy s then first_present not_nullish [''duration'', ''length'', ''time''] s else s) \<and>
   seg_id (normalize_segment s) =
     (if truthy s then first_present not_nullish [''id'', ''ID'', ''index''] s else s)"
  by (simp add: normalize_segment_def first_present_4 first_present_3 not_nullish_def
      js_and_def js_or_def js_coalesce_def)

section \<open>Properties of the asset fetcher\<close>

text \<open>
  As long as every attempt after \<open>a\<close> up to \<open>a + n\<close> fails in a way that may be retried
  and lies within the budget, the loop reaches attempt counter \<open>a + n\<close> having slept
  \<open>retryDelay * j\<close> after each of these attempts \<open>j\<close>.
\<close>

lemma downloadFileToPath_loop_skip:
  assumes "\<forall>j. a < j \<and> j \<le> a + n \<longrightarrow> retryable_failure url (net j) \<and> int j \<le> r"
  shows "downloadFileToPath_loop url net r d a ds =
         downloadFileToPath_loop url net r d (a + n)
           (ds @ map (\<lambda>j. d * int j) [Suc a ..< Suc (a + n)])"
  using assms
proof (induction n)
  case 0
  then show ?case by simp
next
  case (Suc n)
  have IH: "downloadFileToPath_loop url net r d a ds =
         downloadFileToPath_loop url net r d (a + n)
           (ds @ map (\<lambda>j. d * int j) [Suc a ..< Suc (a + n)])"
    using Suc by simp
  have "a < Suc (a + n) \<and> Suc (a + n) \<le> a + Suc n" by simp
  with Suc.prems
  have rf: "retryable_failure url (net (Suc (a + n)))" and le: "int (Suc (a + n)) \<le> r"
    by blast+
  from rf obtain sm where sm: "try_block url (net (Suc (a + n))) = Some sm" "\<not> non_retryable (fst sm)"
    by (auto simp: retryable_failure_def split: option.splits)
  have "downloadFileToPath_loop url net r d (a + n)
          (ds @ map (\<lambda>j. d * int j) [Suc a ..< Suc (a + n)])
      = downloadFileToPath_loop url net r d (Suc (a + n))
          ((ds @ map (\<lambda>j. d * int j) [Suc a ..< Suc (a + n)]) @ [d * int (Suc (a + n))])"
    using sm le by (subst downloadFileToPath_loop.simps) simp
  with IH show ?case by simp
qed

lemma downloadFileToPath_reaches:
  assumes "1 \<le> k"
    and "\<forall>j. 1 \<le> j \<and> j < k \<longrightarrow> retryable_failure url (net j) \<and> int j \<le> r"
  shows "downloadFileToPath net url dest \<lparr> retries = Some r, retryDelay = Some d \<rparr> =
         downloadFileToPath_loop url net r d (k - 1) (map (\<lambda>j. d * int j) [1 ..< k])"
proof -
  have "\<forall>j. 0 < j \<and> j \<le> 0 + (k - 1) \<longrightarrow> retryable_failure url (net j) \<and> int j \<le> r"
    using assms by auto
  from downloadFileToPath_loop_skip[OF this, of d "[]"] assms(1)
  show ?thesis by (simp add: downloadFileToPath_def)
qed

lemma downloadFileToPath_500_500_200:
  "downloadFileToPath net_500_500_200 url dest default_options = (Inr (), 3, [500, 1000])"
  by (simp add: downloadFileToPath_def default_options_def net_500_500_200_def
      downloadFileToPath_loop.simps status_truthy_def non_retryable_def)

lemma downloadFileToPath_404:
  "downloadFileToPath net_404 url dest default_options =
     (Inl (HttpError (''Request failed with status code 404 for '' @ url) (Some 404) url), 1, [])"
  by (simp add: downloadFileToPath_def default_options_def net_404_def
      downloadFileToPath_loop.simps status_truthy_def non_retryable_def catch_message_def
      show_status_def show_int_def show_nat.simps)

text \<open>
  C5. Let the attempts before the \<open>k\<close>-th each fail with a status other than 400, 401,
  403, 404 (or with a transport error) while \<open>j \<le> retries\<close>. Then attempt \<open>k\<close> is made,
  after delays \<open>retryDelay * 1, \<dots>, retryDelay * (k - 1)\<close>, and:
  if it fails in the same way and \<open>k \<le> retries\<close> the call sleeps \<open>retryDelay * k\<close> and
  goes on with attempt \<open>k + 1\<close>; if it succeeds the call returns after exactly \<open>k\<close>
  attempts; if it fails with 400, 401, 403 or 404 the call throws at once, whatever
  budget is left; if it fails otherwise and \<open>k > retries\<close> the call throws. The error
  thrown carries the URL and the status of that last attempt (none for a transport
  error without one). With the defaults (2 retries, 500 ms), 500, 500, 200 succeeds on
  the third attempt after sleeping 500 and 1000 ms, and a 404 fails after one attempt.
\<close>

theorem downloadFileToPath_retry_policy:
  "(1 \<le> k \<and> (\<forall>j. 1 \<le> j \<and> j < k \<longrightarrow> retryable_failure url (net j) \<and> int j \<le> r) \<longrightarrow>
     (retryable_failure url (net k) \<and> int k \<le> r \<longrightarrow>
        downloadFileToPath net url dest \<lparr> retries = Some r, retryDelay = Some d \<rparr> =
        downloadFileToPath_loop url net r d k (map (\<lambda>j. d * int j) [1 ..< k] @ [d * int k])) \<and>
     (try_block url (net k) = None \<longrightarrow>
        downloadFileToPath net url dest \<lparr> retries = Some r, retryDelay = Some d \<rparr> =
        (Inr (), k, map (\<lambda>j. d * int j) [1 ..< k])) \<and>
     (try_block url (net k) = Some (st, m) \<and> non_retryable st \<longrightarrow>
        downloadFileToPath net url dest \<lparr> retries = Some r, retryDelay = Some d \<rparr> =
        (Inl (HttpError (catch_message url st m) st url), k, map (\<lambda>j. d * int j) [1 ..< k])) \<and>
     (try_block url (net k) = Some (st, m) \<and> \<not> non_retryable st \<and> int k > r \<longrightarrow>
        downloadFileToPath net url dest \<lparr> retries = Some r, retryDelay = Some d \<rparr> =
        (Inl (HttpError (catch_message url st m) st url), k, map (\<lambda>j. d * int j) [1 ..< k]))) \<and>
   (non_retryable st \<longleftrightarrow> st \<in> {Some 400, Some 401, Some 403, Some 404}) \<and>
   downloadFileToPath net_500_500_200 url dest default_options = (Inr (), 3, [500, 1000]) \<and>
   downloadFileToPath net_404 url dest default_options =
     (Inl (HttpError (''Request failed with status code 404 for '' @ url) (Some 404) url), 1, [])"
proof -
  let ?call = "downloadFileToPath net url dest \<lparr> retries = Some r, retryDelay = Some d \<rparr>"
  let ?ds = "map (\<lambda>j. d * int j) [1 ..< k]"
  have main: "(retryable_failure url (net k) \<and> int k \<le> r \<longrightarrow>
        ?call = downloadFileToPath_loop url net r d k (?ds @ [d * int k])) \<and>
     (try_block url (net k) = None \<longrightarrow> ?call = (Inr (), k, ?ds)) \<and>
     (try_block url (net k) = Some (st, m) \<and> non_retryable st \<longrightarrow>
        ?call = (Inl (HttpError (catch_message url st m) st url), k, ?ds)) \<and>
     (try_block url (net k) = Some (st, m) \<and> \<not> non_retryable st \<and> int k > r \<longrightarrow>
        ?call = (Inl (HttpError (catch_message url st m) st url), k, ?ds))"
    if k: "1 \<le> k" and pre: "\<forall>j. 1 \<le> j \<and> j < k \<longrightarrow> retryable_failure url (net j) \<and> int j \<le> r"
  proof -
    have reach: "?call = downloadFileToPath_loop url net r d (k - 1) ?ds"
      using k pre by (rule downloadFileToPath_reaches)
    have suc: "Suc (k - 1) = k" using k by simp
    have unfold: "downloadFileToPath_loop url net r d (k - 1) ?ds =
       (case try_block url (net k) of
          None \<Rightarrow> (Inr (), k, ?ds)
        | Some sm \<Rightarrow>
            if non_retryable (fst sm)
            then (Inl (HttpError (catch_message url (fst sm) (snd sm)) (fst sm) url), k, ?ds)
            else if int k > r
            then (Inl (HttpError (catch_message url (fst sm) (snd sm)) (fst sm) url), k, ?ds)
            else downloadFileToPath_loop url net r d k (?ds @ [d * int k]))"
      by (subst downloadFileToPath_loop.simps) (simp only: suc)
    have p0: "retryable_failure url (net k) \<and> int k \<le> r \<longrightarrow>
        ?call = downloadFileToPath_loop url net r d k (?ds @ [d * int k])"
      unfolding reach unfold by (auto simp: retryable_failure_def split: option.splits)
    have p1: "try_block url (net k) = None \<longrightarrow> ?call = (Inr (), k, ?ds)"
      unfolding reach unfold by simp
    have p2: "try_block url (net k) = Some (st, m) \<and> non_retryable st \<longrightarrow>
        ?call = (Inl (HttpError (catch_message url st m) st url), k, ?ds)"
      unfolding reach unfold by simp
    have p3: "try_block url (net k) = Some (st, m) \<and> \<not> non_retryable st \<and> int k > r \<longrightarrow>
        ?call = (Inl (HttpError (catch_message url st m) st url), k, ?ds)"
      unfolding reach unfold by simp
    show ?thesis using p0 p1 p2 p3 by blast
  qed
  have codes: "non_retryable st \<longleftrightarrow> st \<in> {Some 400, Some 401, Some 403, Some 404}"
    by (cases st) (auto simp: non_retryable_def status_truthy_def)
  show ?thesis
    using main codes downloadFileToPath_500_500_200[of url dest] downloadFileToPath_404[of url dest]
    by blast
qed

theorem downloadFileToPath_retry_policy_witness:
  "retryable_failure ''http://host/a.png'' (net_500_500_200 1) \<and>
   retryable_failure ''http://host/a.png'' (net_500_500_200 2) \<and>
   try_block ''http://host/a.png'' (net_500_500_200 3) = None \<and>
   downloadFileToPath net_500_500_200 ''http://host/a.png'' ''/tmp/s/img_0.png''
     \<lparr> retries = Some 2, retryDelay = Some 500 \<rparr> = (Inr (), 3, [500, 1000])"
proof -
  have r1: "retryable_failure ''http://host/a.png'' (net_500_500_200 1)"
    and r2: "retryable_failure ''http://host/a.png'' (net_500_500_200 2)"
    by (simp_all add: retryable_failure_def net_500_500_200_def status_truthy_def non_retryable_def)
  have ok: "try_block ''http://host/a.png'' (net_500_500_200 3) = None"
    by (simp add: net_500_500_200_def status_truthy_def)
  have pre: "\<forall>j. 1 \<le> j \<and> j < (3::nat) \<longrightarrow>
      retryable_failure ''http://host/a.png'' (net_500_500_200 j) \<and> int j \<le> 2"
  proof (intro allI impI)
    fix j :: nat assume "1 \<le> j \<and> j < 3"
    then have "j = 1 \<or> j = 2" by arith
    then show "retryable_failure ''http://host/a.png'' (net_500_500_200 j) \<and> int j \<le> 2"
      using r1 r2 by auto
  qed
  have ds: "map (\<lambda>j. 500 * int j) [1 ..< 3] = [500, 1000]"
    by (simp add: upt_rec)
  show ?thesis
    using downloadFileToPath_retry_policy
      [of 3 "''http://host/a.png''" net_500_500_200 2 "''/tmp/s/img_0.png''" 500 None "[]"]
      pre ok r1 r2 ds
    by simp
qed

section \<open>Properties of the request checks\<close>

lemma unwrap_body_other: "length xs \<noteq> 1 \<Longrightarrow> unwrap_body (JArr xs) = JArr xs"
proof (cases xs)
  case Nil
  then show ?thesis by simp
next
  case (Cons x ys)
  assume "length xs \<noteq> 1"
  with Cons obtain y zs where "ys = y # zs" by (cases ys) auto
  with Cons show ?thesis by simp
qed

text \<open>
  C10. A body that is an array holding exactly one object is handled as that object,
  so both give the same response and the same effects; an array of any other length has
  no \<open>jobId\<close> and is answered with status 400, with no effect.
\<close>

theorem generate_video_unwraps_single_object:
  "generate_video w (JArr [JObj kvs]) = generate_video w (JObj kvs) \<and>
   (length xs \<noteq> 1 \<longrightarrow>
      generate_video w (JArr xs) =
        (Response 400 (ErrorJson ''jobId required in request body''), []))"
proof -
  have a: "generate_video w (JArr [JObj kvs]) = generate_video w (JObj kvs)"
    by (simp add: generate_video_def)
  have b: "generate_video w (JArr xs) =
        (Response 400 (ErrorJson ''jobId required in request body''), [])"
    if "length xs \<noteq> 1"
    using unwrap_body_other[OF that]
    by (simp add: generate_video_def jobId_missing_def Let_def)
  show ?thesis using a b by blast
qed

theorem generate_video_unwraps_single_object_witness:
  "length [request_two, request_two] \<noteq> 1 \<and>
   generate_video world_ok (JArr [request_two, request_two]) =
     (Response 400 (ErrorJson ''jobId required in request body''), []) \<and>
   generate_video world_ok (JArr [request_two]) = generate_video world_ok request_two"
  using generate_video_unwraps_single_object
    [of world_ok "[(''jobId'', JStr ''job-123''), (''segments'', JArr [segment_a, segment_b])]"
        "[request_two, request_two]"]
  by (simp add: request_two_def)

text \<open>
  A missing, non-string or blank \<open>jobId\<close> is answered with status 400 before anything
  else happens, and the session directory is made only after the check of \<open>jobId\<close>,
  the lookup of the subtitle style and the check of \<open>segments\<close> have all passed.
\<close>

lemma generate_video_jobId_required:
  "jobId_missing (getprop (if truthy (unwrap_body body) then unwrap_body body else JObj []) ''jobId'')
   \<Longrightarrow> generate_video w body = (Response 400 (ErrorJson ''jobId required in request body''), [])"
  by (simp add: generate_video_def Let_def)

lemma generate_video_segments_required:
  assumes b: "b = (if truthy (unwrap_body body) then unwrap_body body else JObj [])"
    and j: "\<not> jobId_missing (getprop b ''jobId'')"
    and g: "global_style w (getprop b ''subtitlePreset'') (getprop b ''subtitleStyle'') = Inr style"
    and s: "\<forall>s ss. getprop b ''segments'' \<noteq> JArr (s # ss)"
  shows "generate_video w body = (Response 400 (ErrorJson ''segments array required''), [])"
proof (cases "truthy (unwrap_body body)")
  case False
  with b j show ?thesis by (simp add: jobId_missing_def)
next
  case True
  with b have b': "unwrap_body body = b" by simp
  show ?thesis
  proof (cases "getprop b ''segments''")
    case (JArr xs)
    with s have "xs = []" by (cases xs) auto
    with JArr j g True b' show ?thesis by (simp add: generate_video_def Let_def)
  qed (use j g True b' in \<open>simp_all add: generate_video_def Let_def\<close>)
qed

lemma generate_video_workspace_after_checks:
  assumes m: "Mkdir d \<in> set (snd (generate_video w body))"
    and b: "b = (if truthy (unwrap_body body) then unwrap_body body else JObj [])"
  shows "\<not> jobId_missing (getprop b ''jobId'') \<and> (\<exists>s ss. getprop b ''segments'' = JArr (s # ss))"
proof -
  have gv: "generate_video w body =
     (if jobId_missing (getprop b ''jobId'')
         then (Response 400 (ErrorJson ''jobId required in request body''), [])
         else case global_style w (getprop b ''subtitlePreset'') (getprop b ''subtitleStyle'') of
           Inl e \<Rightarrow> (Uncaught e, [])
         | Inr style \<Rightarrow>
             (case getprop b ''segments'' of
                JArr [] \<Rightarrow> (Response 400 (ErrorJson ''segments array required''), [])
              | JArr (s # ss) \<Rightarrow> generate_video w body
              | _ \<Rightarrow> (Response 400 (ErrorJson ''segments array required''), [])))"
    unfolding b
    by (simp add: generate_video_def Let_def split: sum.splits jsval.splits list.splits)
  show ?thesis
  proof (rule ccontr)
    assume "\<not> ?thesis"
    then have "snd (generate_video w body) = []"
      by (subst gv) (auto split: sum.splits jsval.splits list.splits)
    with m show False by simp
  qed
qed

text \<open>
  C9 fails on a request with a good \<open>jobId\<close>, no segments and a \<open>subtitlePreset\<close>
  that is \<open>true\<close>: the lookup of the preset runs before the check of \<open>segments\<close> and
  throws (the helper itself does, or else \<open>toLowerCase\<close> is missing on a value that is
  not a string), outside the try block. No response with status 400 is sent; no
  directory is made either.
\<close>

theorem generate_video_preset_before_segments_check:
  "generate_video w request_preset_no_segments =
     (Uncaught (case getSubtitleStylePresets w of
                  Inl e \<Rightarrow> e
                | Inr presets \<Rightarrow> TypeError ''subtitlePreset.toLowerCase is not a function''), [])"
  by (simp add: generate_video_def request_preset_no_segments_def jobId_missing_def trim_def
      is_space_def global_style_def Let_def split: sum.splits)

section \<open>Properties of the check of the durations\<close>

lemma findIndex_Some:
  "findIndex P xs = Some i \<Longrightarrow> i < length xs \<and> P (xs ! i) \<and> (\<forall>j<i. \<not> P (xs ! j))"
proof (induction xs arbitrary: i)
  case Nil
  then show ?case by simp
next
  case (Cons x xs)
  show ?case
  proof (cases "P x")
    case True
    with Cons.prems show ?thesis by simp
  next
    case False
    with Cons.prems obtain i' where i': "findIndex P xs = Some i'" "i = Suc i'" by auto
    from Cons.IH[OF i'(1)] False i'(2) show ?thesis
      by (auto simp: nth_Cons split: nat.splits)
  qed
qed

lemma findIndex_None: "findIndex P xs = None \<Longrightarrow> \<forall>x\<in>set xs. \<not> P x"
  by (induction xs) (auto split: if_splits)

lemma findIndex_first:
  "i < length xs \<Longrightarrow> P (xs ! i) \<Longrightarrow> \<forall>j<i. \<not> P (xs ! j) \<Longrightarrow> findIndex P xs = Some i"
proof (cases "findIndex P xs")
  case None
  assume "i < length xs" "P (xs ! i)"
  with findIndex_None[OF None] show ?thesis by auto
next
  case (Some k)
  assume a: "i < length xs" "P (xs ! i)" "\<forall>j<i. \<not> P (xs ! j)"
  from findIndex_Some[OF Some] have k: "k < length xs" "P (xs ! k)" "\<forall>j<k. \<not> P (xs ! j)" by auto
  have "k = i" using a k by (metis linorder_neqE_nat)
  with Some show ?thesis by simp
qed

lemma subtitleResults_length:
  "subtitleResults w dir style i segs = Inr results \<Longrightarrow> length results = length segs"
  by (induction segs arbitrary: i results) (auto split: sum.splits if_splits)

text \<open>
  C2. Let the downloads have all succeeded and the subtitle step have returned, and let
  \<open>i\<close> be the first index at which the duration, after the update from the subtitle
  results, is \<open>null\<close>, \<open>undefined\<close> or does not convert to a finite number. Then the try
  block throws the validation error whose message names \<open>i\<close>, and its only effects are
  the downloads: no render of either kind, no concatenation and no upload.
\<close>

theorem validation_after_subtitles_before_compose:
  assumes dl: "promise_all (length segments) (downloadTasks w dir segments) = Some (Inr segs)"
    and sub: "subtitleResults w dir style 0 segs = Inr results"
    and i: "i < length segs"
    and bad: "missing_duration w (map2 update_duration segs results ! i)"
    and first: "\<forall>j<i. \<not> missing_duration w (map2 update_duration segs results ! j)"
  shows "try_body w dir resolution style jobId segments =
           (Some (Inl (Error (validation_message i))),
            map (\<lambda>t. Fetched (fst t)) (downloadTasks w dir segments)) \<and>
         (\<forall>e \<in> set (snd (try_body w dir resolution style jobId segments)).
            \<not> composition_effect e \<and> (\<forall>p j. e \<noteq> Upload p j))"
proof -
  have len: "length (map2 update_duration segs results) = length segs"
    using subtitleResults_length[OF sub] by simp
  have fi: "findIndex (missing_duration w) (map2 update_duration segs results) = Some i"
    using i bad first len by (intro findIndex_first) simp_all
  have ad: "after_download w dir resolution style jobId segs =
      (Inl (Error (validation_message i)), [])"
    using sub fi by (simp add: after_download_def)
  have tb: "try_body w dir resolution style jobId segments =
           (Some (Inl (Error (validation_message i))),
            map (\<lambda>t. Fetched (fst t)) (downloadTasks w dir segments))"
    using dl ad by (simp add: try_body_def Let_def)
  show ?thesis unfolding tb by auto
qed

theorem validation_after_subtitles_before_compose_witness:
  "promise_all 2 (downloadTasks world_ok ''/app/temp/s1''
      (map normalize_segment [segment_a, segment_no_duration])) =
     Some (Inr [downloaded_a, downloaded_no_duration]) \<and>
   subtitleResults world_ok ''/app/temp/s1'' JNull 0 [downloaded_a, downloaded_no_duration] =
     Inr [no_subtitle, no_subtitle] \<and>
   missing_duration world_ok
     (map2 update_duration [downloaded_a, downloaded_no_duration] [no_subtitle, no_subtitle] ! 1) \<and>
   \<not> missing_duration world_ok
     (map2 update_duration [downloaded_a, downloaded_no_duration] [no_subtitle, no_subtitle] ! 0) \<and>
   fst (try_body world_ok ''/app/temp/s1'' (JStr ''1280x720'') JNull ''job-9''
      (map normalize_segment [segment_a, segment_no_duration])) =
     Some (Inl (Error (validation_message 1)))"
proof -
  let ?segments = "map normalize_segment [segment_a, segment_no_duration]"
  have dl2: "promise_all 2 (downloadTasks world_ok ''/app/temp/s1'' ?segments) =
     Some (Inr [downloaded_a, downloaded_no_duration])"
    by code_simp
  have dl: "promise_all (length ?segments) (downloadTasks world_ok ''/app/temp/s1'' ?segments) =
     Some (Inr [downloaded_a, downloaded_no_duration])"
    by code_simp
  have sub: "subtitleResults world_ok ''/app/temp/s1'' JNull 0 [downloaded_a, downloaded_no_duration] =
     Inr [no_subtitle, no_subtitle]"
    by code_simp
  have i: "1 < length [downloaded_a, downloaded_no_duration]" by simp
  have bad: "missing_duration world_ok
     (map2 update_duration [downloaded_a, downloaded_no_duration] [no_subtitle, no_subtitle] ! 1)"
    by code_simp
  have ok0: "\<not> missing_duration world_ok
     (map2 update_duration [downloaded_a, downloaded_no_duration] [no_subtitle, no_subtitle] ! 0)"
    by code_simp
  have first: "\<forall>j<1. \<not> missing_duration world_ok
     (map2 update_duration [downloaded_a, downloaded_no_duration] [no_subtitle, no_subtitle] ! j)"
    using ok0 by simp
  from validation_after_subtitles_before_compose
    [OF dl sub i bad first, of "JStr ''1280x720''" "''job-9''"]
  have res: "fst (try_body world_ok ''/app/temp/s1'' (JStr ''1280x720'') JNull ''job-9'' ?segments) =
     Some (Inl (Error (validation_message 1)))"
    by simp
  show ?thesis using dl2 sub bad ok0 res by blast
qed

lemma after_download_effects:
  assumes "e \<in> set (snd (after_download w dir resolution style jobId segs))"
  shows "\<exists>results. subtitleResults w dir style 0 segs = Inr results \<and>
           findIndex (missing_duration w) (map2 update_duration segs results) = None"
proof (cases "subtitleResults w dir style 0 segs")
  case (Inl err)
  with assms show ?thesis by (simp add: after_download_def)
next
  case (Inr results)
  show ?thesis
  proof (cases "findIndex (missing_duration w) (map2 update_duration segs results)")
    case None
    with Inr show ?thesis by simp
  next
    case (Some k)
    with Inr assms show ?thesis by (simp add: after_download_def)
  qed
qed

text \<open>
  C3 as stated fails. A job whose only segment has duration 0 passes the check, is
  rendered by the single run (with \<open>-t 0\<close>) and is uploaded.
\<close>

theorem zero_duration_reaches_composition_counterexample:
  "generate_video world_ok request_zero_duration =
     (Response 200 (ResultJson ''job-0'' ''https://store/job-0.mp4''),
      [Mkdir ''/app/temp/s1'', Fetched 0, FastRender fast_cmd_zero,
       Upload ''/app/temp/s1/final.mp4'' ''job-0'', Rm ''/app/temp/s1''])"
  by code_simp

text \<open>
  C3, amended. Whenever the try block performs any effect of the composition (a render
  of either kind, a kill, the list file or the concatenation), the downloads have all
  succeeded, the subtitle step has returned, and every segment's duration, after the
  update, is neither \<open>null\<close> nor \<open>undefined\<close> and converts to a finite number. Nothing is
  checked about its sign.
\<close>

theorem composition_only_with_finite_durations:
  assumes e: "e \<in> set (snd (try_body w dir resolution style jobId segments))"
    and ce: "composition_effect e"
  shows "\<exists>segs results.
           promise_all (length segments) (downloadTasks w dir segments) = Some (Inr segs) \<and>
           subtitleResults w dir style 0 segs = Inr results \<and>
           (\<forall>s \<in> set (map2 update_duration segs results).
              \<not> nullish (duration s) \<and> isFinite_js (Number_js (str_num w) (duration s)))"
proof (cases "promise_all (length segments) (downloadTasks w dir segments)")
  case None
  with e ce show ?thesis by (auto simp: try_body_def Let_def)
next
  case (Some r)
  show ?thesis
  proof (cases r)
    case (Inl err)
    with Some e ce show ?thesis by (auto simp: try_body_def Let_def)
  next
    case (Inr segs)
    with Some e ce have "e \<in> set (snd (after_download w dir resolution style jobId segs))"
      by (auto simp: try_body_def Let_def split: prod.splits)
    from after_download_effects[OF this] obtain results where
      r: "subtitleResults w dir style 0 segs = Inr results"
         "findIndex (missing_duration w) (map2 update_duration segs results) = None"
      by blast
    from findIndex_None[OF r(2)]
    have "\<forall>s \<in> set (map2 update_duration segs results).
              \<not> nullish (duration s) \<and> isFinite_js (Number_js (str_num w) (duration s))"
      by (simp add: missing_duration_def)
    with Some Inr r(1) show ?thesis by blast
  qed
qed

theorem composition_only_with_finite_durations_witness:
  "composition_effect (FastRender fast_cmd_two) \<and>
   FastRender fast_cmd_two \<in> set (snd (try_body world_ok ''/app/temp/s1'' (JStr ''1280x720'') JNull
      ''job-123'' (map normalize_segment [segment_a, segment_b]))) \<and>
   (\<exists>segs results.
      promise_all (length (map normalize_segment [segment_a, segment_b]))
        (downloadTasks world_ok ''/app/temp/s1'' (map normalize_segment [segment_a, segment_b])) =
        Some (Inr segs) \<and>
      subtitleResults world_ok ''/app/temp/s1'' JNull 0 segs = Inr results \<and>
      (\<forall>s \<in> set (map2 update_duration segs results).
         \<not> nullish (duration s) \<and> isFinite_js (Number_js (str_num world_ok) (duration s))))"
proof -
  have tb: "snd (try_body world_ok ''/app/temp/s1'' (JStr ''1280x720'') JNull
      ''job-123'' (map normalize_segment [segment_a, segment_b])) =
      [Fetched 1, Fetched 0, FastRender fast_cmd_two, Upload ''/app/temp/s1/final.mp4'' ''job-123'']"
    by code_simp
  then have mem: "FastRender fast_cmd_two \<in> set (snd (try_body world_ok ''/app/temp/s1''
      (JStr ''1280x720'') JNull ''job-123'' (map normalize_segment [segment_a, segment_b])))"
    by simp
  have ce: "composition_effect (FastRender fast_cmd_two)" by simp
  from composition_only_with_finite_durations[OF mem ce] mem ce show ?thesis by blast
qed

section \<open>Properties of the fallback\<close>

lemma createSegmentVideo_timeout:
  assumes "parse_resolution sn resolution = Inr wh"
    and "runs_into_timeout (ff (build_segment_cmd imgPath outPath wh dur))"
  shows "createSegmentVideo sn ff imgPath outPath resolution dur =
     (Inl (Error ''FFmpeg process timed out''),
      [SegmentRender (build_segment_cmd imgPath outPath wh dur), Kill outPath])"
proof (cases "ff (build_segment_cmd imgPath outPath wh dur)")
  case (NoStart e)
  with assms show ?thesis by simp
next
  case (Started pe)
  with assms show ?thesis
    by (cases pe) (simp_all add: createSegmentVideo_def Let_def)
qed

lemma createSegmentVideo_Inr:
  "fst (createSegmentVideo sn ff imgPath outPath resolution dur) = Inr p \<Longrightarrow> p = outPath"
  by (auto simp: createSegmentVideo_def Let_def split: sum.splits proc.splits proc_end.splits if_splits)

lemma createSegmentVideo_effects:
  "x \<in> set (snd (createSegmentVideo sn ff imgPath outPath resolution dur)) \<Longrightarrow>
   (\<exists>c. x = SegmentRender c) \<or> (\<exists>p. x = Kill p)"
  by (auto simp: createSegmentVideo_def Let_def split: sum.splits proc.splits proc_end.splits if_splits)

lemma createVideoFromSegments_effects:
  "x \<in> set (snd (createVideoFromSegments sn pr ff segs outPath resolution)) \<Longrightarrow>
   (\<exists>c. x = FastRender c)"
  by (auto simp: createVideoFromSegments_def Let_def split: sum.splits option.splits if_splits)

lemma fallback_loop_Cons:
  "fallback_loop w dir resolution i (seg # rest) =
     (case fst (render_at w dir resolution i seg) of
        Inl e \<Rightarrow> (Inl e, snd (render_at w dir resolution i seg))
      | Inr segOut \<Rightarrow>
          (case fst (fallback_loop w dir resolution (Suc i) rest) of
             Inl e \<Rightarrow> (Inl e, snd (render_at w dir resolution i seg) @
                               snd (fallback_loop w dir resolution (Suc i) rest))
           | Inr paths \<Rightarrow> (Inr (segOut # paths), snd (render_at w dir resolution i seg) @
                               snd (fallback_loop w dir resolution (Suc i) rest))))"
  by (simp add: render_at_def split: prod.splits sum.splits)

lemma upt_shift_map: "map f [0 ..< Suc n] = f 0 # map (\<lambda>j. f (Suc j)) [0 ..< n]"
  by (simp only: upt_conv_Cons[of 0 "Suc n"] zero_less_Suc if_True list.map map_Suc_upt[symmetric] map_map comp_def)

text \<open>The loop stops at the first render that rejects and hands its error on.\<close>

lemma fallback_loop_fails:
  assumes "k < length xs"
    and "\<forall>j<k. \<exists>p. fst (render_at w dir resolution (i + j) (xs ! j)) = Inr p"
    and "fst (render_at w dir resolution (i + k) (xs ! k)) = Inl e"
  shows "fallback_loop w dir resolution i xs =
     (Inl e, concat (map (\<lambda>j. snd (render_at w dir resolution (i + j) (xs ! j))) [0 ..< Suc k]))"
  using assms
proof (induction xs arbitrary: i k)
  case Nil
  then show ?case by simp
next
  case (Cons x xs)
  show ?case
  proof (cases k)
    case 0
    with Cons.prems(3) show ?thesis by (simp add: fallback_loop_Cons del: fallback_loop.simps)
  next
    case (Suc k')
    from Cons.prems(2) Suc obtain p where
      p: "fst (render_at w dir resolution i x) = Inr p"
      by force
    have k': "k' < length xs" using Cons.prems(1) Suc by simp
    have before: "\<forall>j<k'. \<exists>p. fst (render_at w dir resolution (Suc i + j) (xs ! j)) = Inr p"
    proof (intro allI impI)
      fix j assume "j < k'"
      then have "Suc j < k" using Suc by simp
      with Cons.prems(2) have "\<exists>p. fst (render_at w dir resolution (i + Suc j) ((x # xs) ! Suc j)) = Inr p"
        by blast
      then show "\<exists>p. fst (render_at w dir resolution (Suc i + j) (xs ! j)) = Inr p" by simp
    qed
    have fail: "fst (render_at w dir resolution (Suc i + k') (xs ! k')) = Inl e"
      using Cons.prems(3) Suc by simp
    note IH = Cons.IH[OF k' before fail]
    show ?thesis
      unfolding Suc
      by (subst upt_shift_map) (simp add: fallback_loop_Cons p IH del: fallback_loop.simps upt_Suc)
  qed
qed

text \<open>When every render resolves, the clips come out in index order.\<close>

lemma fallback_loop_succeeds:
  assumes "\<forall>j<length xs. \<exists>p. fst (render_at w dir resolution (i + j) (xs ! j)) = Inr p"
  shows "fallback_loop w dir resolution i xs =
     (Inr (map (\<lambda>j. join dir (''seg_'' @ show_nat (i + j) @ ''.mp4'')) [0 ..< length xs]),
      concat (map (\<lambda>j. snd (render_at w dir resolution (i + j) (xs ! j))) [0 ..< length xs]))"
  using assms
proof (induction xs arbitrary: i)
  case Nil
  then show ?case by simp
next
  case (Cons x xs)
  from Cons.prems obtain p where p: "fst (render_at w dir resolution i x) = Inr p" by force
  then have p': "p = join dir (''seg_'' @ show_nat i @ ''.mp4'')"
    unfolding render_at_def by (rule createSegmentVideo_Inr)
  have rest: "\<forall>j<length xs. \<exists>p. fst (render_at w dir resolution (Suc i + j) (xs ! j)) = Inr p"
  proof (intro allI impI)
    fix j assume "j < length xs"
    then have "Suc j < length (x # xs)" by simp
    with Cons.prems have "\<exists>p. fst (render_at w dir resolution (i + Suc j) ((x # xs) ! Suc j)) = Inr p"
      by blast
    then show "\<exists>p. fst (render_at w dir resolution (Suc i + j) (xs ! j)) = Inr p" by simp
  qed
  note IH = Cons.IH[OF rest]
  have len: "length (x # xs) = Suc (length xs)" by simp
  show ?case
    unfolding len
    by (subst (1 2) upt_shift_map) (simp add: fallback_loop_Cons p p' IH del: fallback_loop.simps upt_Suc)
qed

text \<open>
  C7. Let a job have reached the composition, let the single run have failed, and let
  the renders of the clips before the \<open>k\<close>-th have resolved. If the process of the
  \<open>k\<close>-th render is still running 60000 ms after its start, the render kills it and
  rejects with the timeout error. And if the \<open>k\<close>-th render rejects, with whatever
  error, the steps after the downloads end with that error: no clip after the \<open>k\<close>-th
  is rendered, nothing is retried, and the effects are renders and kills only, so
  nothing is concatenated and nothing is uploaded.
\<close>

theorem fallback_render_failure_fails_job:
  assumes sub: "subtitleResults w dir style 0 segs0 = Inr results"
    and valid: "findIndex (missing_duration w) (map2 update_duration segs0 results) = None"
    and segs: "segs = map2 update_duration segs0 results"
    and fast: "fst (createVideoFromSegments (str_num w) (ffprobe w) (ffmpeg_fast w) segs
                 (join dir ''final.mp4'') resolution) = Inl singleErr"
    and k: "k < length segs"
    and before: "\<forall>j<k. \<exists>p. fst (segment_render w dir resolution segs j) = Inr p"
  shows "(parse_resolution (str_num w) resolution = Inr wh \<and>
          runs_into_timeout (ffmpeg_segment w
            (build_segment_cmd (imagePath (segs ! k)) (join dir (''seg_'' @ show_nat k @ ''.mp4''))
               wh (duration (segs ! k)))) \<longrightarrow>
          segment_render w dir resolution segs k =
            (Inl (Error ''FFmpeg process timed out''),
             [SegmentRender (build_segment_cmd (imagePath (segs ! k))
                (join dir (''seg_'' @ show_nat k @ ''.mp4'')) wh (duration (segs ! k))),
              Kill (join dir (''seg_'' @ show_nat k @ ''.mp4''))])) \<and>
         (fst (segment_render w dir resolution segs k) = Inl e \<longrightarrow>
          after_download w dir resolution style jobId segs0 =
            (Inl e,
             snd (createVideoFromSegments (str_num w) (ffprobe w) (ffmpeg_fast w) segs
                    (join dir ''final.mp4'') resolution) @
             concat (map (\<lambda>j. snd (segment_render w dir resolution segs j)) [0 ..< Suc k])) \<and>
          (\<forall>x \<in> set (snd (after_download w dir resolution style jobId segs0)).
             (\<exists>c. x = FastRender c) \<or> (\<exists>c. x = SegmentRender c) \<or> (\<exists>p. x = Kill p))) \<and>
         (runs_into_timeout (Started (Ends t)) \<longleftrightarrow> 60000 \<le> t)"
proof -
  let ?fast = "createVideoFromSegments (str_num w) (ffprobe w) (ffmpeg_fast w) segs
                    (join dir ''final.mp4'') resolution"
  let ?effs = "snd ?fast @ concat (map (\<lambda>j. snd (segment_render w dir resolution segs j)) [0 ..< Suc k])"
  have t1: "segment_render w dir resolution segs k =
            (Inl (Error ''FFmpeg process timed out''),
             [SegmentRender (build_segment_cmd (imagePath (segs ! k))
                (join dir (''seg_'' @ show_nat k @ ''.mp4'')) wh (duration (segs ! k))),
              Kill (join dir (''seg_'' @ show_nat k @ ''.mp4''))])"
    if "parse_resolution (str_num w) resolution = Inr wh"
      and "runs_into_timeout (ffmpeg_segment w
            (build_segment_cmd (imagePath (segs ! k)) (join dir (''seg_'' @ show_nat k @ ''.mp4''))
               wh (duration (segs ! k))))"
    unfolding segment_render_def render_at_def using that by (rule createSegmentVideo_timeout)
  have t2: "after_download w dir resolution style jobId segs0 = (Inl e, ?effs) \<and>
          (\<forall>x \<in> set (snd (after_download w dir resolution style jobId segs0)).
             (\<exists>c. x = FastRender c) \<or> (\<exists>c. x = SegmentRender c) \<or> (\<exists>p. x = Kill p))"
    if fail: "fst (segment_render w dir resolution segs k) = Inl e"
  proof -
    have b': "\<forall>j<k. \<exists>p. fst (render_at w dir resolution (0 + j) (segs ! j)) = Inr p"
      using before by (simp add: segment_render_def)
    have f': "fst (render_at w dir resolution (0 + k) (segs ! k)) = Inl e"
      using fail by (simp add: segment_render_def)
    have loop: "fallback_loop w dir resolution 0 segs =
       (Inl e, concat (map (\<lambda>j. snd (segment_render w dir resolution segs j)) [0 ..< Suc k]))"
      using fallback_loop_fails[OF k b' f'] by (simp add: segment_render_def)
    obtain tr0 where fast': "?fast = (Inl singleErr, tr0)"
      using fast by (cases ?fast) auto
    have comp: "compose w dir resolution segs = (Inl e, ?effs)"
      using fast' loop by (simp add: compose_def Let_def)
    have ad: "after_download w dir resolution style jobId segs0 = (Inl e, ?effs)"
      using sub valid comp segs by (simp add: after_download_def Let_def)
    have kinds: "(\<exists>c. x = FastRender c) \<or> (\<exists>c. x = SegmentRender c) \<or> (\<exists>p. x = Kill p)"
      if "x \<in> set ?effs" for x
    proof -
      from that consider "x \<in> set (snd ?fast)"
        | j where "x \<in> set (snd (segment_render w dir resolution segs j))"
        by auto
      then show ?thesis
      proof cases
        case 1
        then show ?thesis using createVideoFromSegments_effects by blast
      next
        case 2
        then show ?thesis
          unfolding segment_render_def render_at_def using createSegmentVideo_effects by blast
      qed
    qed
    show ?thesis unfolding ad using kinds by simp
  qed
  have t3: "runs_into_timeout (Started (Ends t)) \<longleftrightarrow> 60000 \<le> t"
    by (simp add: segment_timeout_ms_def)
  show ?thesis using t1 t2 t3 by blast
qed


theorem fallback_render_failure_fails_job_witness:
  "fst (segment_render world_untimed_clip_hangs ''/app/temp/s1'' (JStr ''1280x720'')
      [downloaded_a, downloaded_zero] 0) = Inr ''/app/temp/s1/seg_0.mp4'' \<and>
   parse_resolution (str_num world_untimed_clip_hangs) (JStr ''1280x720'') = Inr (1280, 720) \<and>
   runs_into_timeout (ffmpeg_segment world_untimed_clip_hangs segment_cmd_zero) \<and>
   segment_render world_untimed_clip_hangs ''/app/temp/s1'' (JStr ''1280x720'')
      [downloaded_a, downloaded_zero] 1 =
     (Inl (Error ''FFmpeg process timed out''),
      [SegmentRender segment_cmd_zero, Kill ''/app/temp/s1/seg_1.mp4'']) \<and>
   after_download world_untimed_clip_hangs ''/app/temp/s1'' (JStr ''1280x720'') JNull ''job-123''
      [downloaded_a, downloaded_zero] =
     (Inl (Error ''FFmpeg process timed out''),
      [FastRender fast_cmd_a_zero, SegmentRender segment_cmd_a, SegmentRender segment_cmd_zero,
       Kill ''/app/temp/s1/seg_1.mp4''])"
proof -
  let ?w = world_untimed_clip_hangs
  let ?d = "''/app/temp/s1''"
  let ?r = "JStr ''1280x720''"
  let ?segs = "[downloaded_a, downloaded_zero]"
  have sub: "subtitleResults ?w ?d JNull 0 ?segs = Inr [no_subtitle, no_subtitle]"
    by code_simp
  have valid: "findIndex (missing_duration ?w) (map2 update_duration ?segs [no_subtitle, no_subtitle]) = None"
    by code_simp
  have segs: "?segs = map2 update_duration ?segs [no_subtitle, no_subtitle]"
    by code_simp
  have fast: "fst (createVideoFromSegments (str_num ?w) (ffprobe ?w) (ffmpeg_fast ?w) ?segs
                 (join ?d ''final.mp4'') ?r) = Inl (Error ''Error initializing complex filters'')"
    by code_simp
  have k: "1 < length ?segs" by simp
  have r0: "fst (segment_render ?w ?d ?r ?segs 0) = Inr ''/app/temp/s1/seg_0.mp4''"
    by code_simp
  then have before: "\<forall>j<1. \<exists>p. fst (segment_render ?w ?d ?r ?segs j) = Inr p"
    by simp
  have res: "parse_resolution (str_num ?w) ?r = Inr (1280, 720)"
    by code_simp
  have out: "join ?d (''seg_'' @ show_nat 1 @ ''.mp4'') = ''/app/temp/s1/seg_1.mp4''"
    by code_simp
  have cmd: "build_segment_cmd (imagePath (?segs ! 1)) ''/app/temp/s1/seg_1.mp4''
               (1280, 720) (duration (?segs ! 1)) = segment_cmd_zero"
    by code_simp
  have hang: "runs_into_timeout (ffmpeg_segment ?w segment_cmd_zero)"
    by code_simp
  have effs: "snd (createVideoFromSegments (str_num ?w) (ffprobe ?w) (ffmpeg_fast ?w) ?segs
                    (join ?d ''final.mp4'') ?r) @
             concat (map (\<lambda>j. snd (segment_render ?w ?d ?r ?segs j)) [0 ..< Suc 1]) =
      [FastRender fast_cmd_a_zero, SegmentRender segment_cmd_a, SegmentRender segment_cmd_zero,
       Kill ''/app/temp/s1/seg_1.mp4'']"
    by code_simp
  note T = fallback_render_failure_fails_job[OF sub valid segs fast k before,
      of "(1280, 720)" "Error ''FFmpeg process timed out''" "''job-123''",
      unfolded out cmd effs]
  from T res hang have c1: "segment_render ?w ?d ?r ?segs 1 =
     (Inl (Error ''FFmpeg process timed out''),
      [SegmentRender segment_cmd_zero, Kill ''/app/temp/s1/seg_1.mp4''])"
    by blast
  then have "fst (segment_render ?w ?d ?r ?segs 1) = Inl (Error ''FFmpeg process timed out'')"
    by simp
  with T have c2: "after_download ?w ?d ?r JNull ''job-123'' ?segs =
     (Inl (Error ''FFmpeg process timed out''),
      [FastRender fast_cmd_a_zero, SegmentRender segment_cmd_a, SegmentRender segment_cmd_zero,
       Kill ''/app/temp/s1/seg_1.mp4''])"
    by blast
  show ?thesis using r0 res hang c1 c2 by blast
qed

section \<open>Properties of the order of the scenes\<close>

lemma those_Some: "those ys = Some xs \<Longrightarrow> ys = map Some xs"
  by (induction ys arbitrary: xs) (auto split: option.splits)

lemma promise_all_run_result:
  assumes "promise_all_run rem vals evs = Some (Inr xs)"
    and "\<forall>ev \<in> set evs. snd ev = task (fst ev)"
    and "\<forall>i<length vals. \<forall>v. vals ! i = Some v \<longrightarrow> task i = Fulfil v"
  shows "length xs = length vals \<and> (\<forall>i<length vals. task i = Fulfil (xs ! i))"
  using assms
proof (induction rem vals evs rule: promise_all_run.induct)
  case (1 remaining vals)
  then show ?case by simp
next
  case (2 remaining vals i e evs)
  then show ?case by simp
next
  case (3 remaining vals i v evs)
  let ?vals = "vals[i := Some v]"
  have ti: "task i = Fulfil v" using "3.prems"(2) by simp
  have inv: "\<forall>j<length ?vals. \<forall>u. ?vals ! j = Some u \<longrightarrow> task j = Fulfil u"
  proof (intro allI impI)
    fix j u assume j: "j < length ?vals" and u: "?vals ! j = Some u"
    show "task j = Fulfil u"
    proof (cases "j = i")
      case True
      with j u ti show ?thesis by simp
    next
      case False
      with j u have "vals ! j = Some u" by simp
      with "3.prems"(3) j show ?thesis by simp
    qed
  qed
  show ?case
  proof (cases "remaining - 1 = 0")
    case True
    with "3.prems"(1) have "those ?vals = Some xs" by auto
    then have eq: "?vals = map Some xs" by (rule those_Some)
    then have len: "length xs = length vals" by (metis length_list_update length_map)
    have "task j = Fulfil (xs ! j)" if "j < length vals" for j
    proof -
      have "?vals ! j = Some (xs ! j)" using eq that len by (metis nth_map)
      with inv that show ?thesis by simp
    qed
    with len show ?thesis by simp
  next
    case False
    with "3.prems"(1) have run: "promise_all_run (remaining - 1) ?vals evs = Some (Inr xs)" by simp
    have evs: "\<forall>ev \<in> set evs. snd ev = task (fst ev)" using "3.prems"(2) by simp
    from "3.IH"[OF False run evs inv] show ?thesis by simp
  qed
qed

lemma promise_all_result:
  assumes "promise_all n evs = Some (Inr xs)"
    and "\<forall>ev \<in> set evs. snd ev = task (fst ev)"
  shows "length xs = n \<and> (\<forall>i<n. task i = Fulfil (xs ! i))"
proof (cases "n = 0")
  case True
  with assms(1) show ?thesis by (simp add: promise_all_def)
next
  case False
  with assms(1) have "promise_all_run n (replicate n None) evs = Some (Inr xs)"
    by (simp add: promise_all_def)
  from promise_all_run_result[OF this assms(2)] show ?thesis by simp
qed

lemma downloadTasks_own_result:
  assumes "ev \<in> set (downloadTasks w dir segments)"
  shows "snd ev = download_task w dir (fst ev) (segments ! fst ev)"
proof -
  have c0: "0 \<le> MAX_CONCURRENCY (cpus w)" by (simp add: MAX_CONCURRENCY_def)
  have "(fst ev, snd ev) \<in> set (settled (run (MAX_CONCURRENCY (cpus w))
       (map Call [0 ..< length segments] @
        map (\<lambda>i. Done i (download_task w dir i (segments ! i)))
          (filter (\<lambda>i. i < length segments) (completion w)))))"
    using assms by (simp add: downloadTasks_def)
  from settled_run[OF c0 this] show ?thesis by auto
qed

lemma promise_all_downloads:
  assumes "promise_all (length segments) (downloadTasks w dir segments) = Some (Inr segs)"
  shows "length segs = length segments \<and>
         (\<forall>i<length segments. download_task w dir i (segments ! i) = Fulfil (segs ! i))"
  using promise_all_result[OF assms, of "\<lambda>i. download_task w dir i (segments ! i)"]
    downloadTasks_own_result[of _ w dir segments]
  by blast

lemma download_task_imagePath:
  "download_task w dir i seg = Fulfil d \<Longrightarrow>
   imagePath d = join dir (''img_'' @ show_nat i @ safeExt w (seg_imageUrl seg) ''.png'') \<and>
   duration d = seg_duration seg"
  by (auto simp: download_task_def Let_def split: sum.splits)

lemma map2_update_duration_imagePath:
  "length results = length segs \<Longrightarrow>
   map imagePath (map2 update_duration segs results) = map imagePath segs"
  by (induction segs results rule: list_induct2') (simp_all add: update_duration_def)

lemma segment_cmds_append: "segment_cmds (a @ b) = segment_cmds a @ segment_cmds b"
  by (induction a rule: segment_cmds.induct) simp_all

lemma segment_cmds_Fetched: "segment_cmds (map (\<lambda>t. Fetched (f t)) ts) = []"
  by (induction ts) simp_all

lemma build_fast_cmd_order:
  "map fst (fc_inputs (build_fast_cmd sn pr wd ht segs out)) = map imagePath segs \<and>
   map fst (fc_filters (build_fast_cmd sn pr wd ht segs out)) = [0 ..< length segs] \<and>
   map (\<lambda>f. snd (snd f)) (fc_filters (build_fast_cmd sn pr wd ht segs out)) = [0 ..< length segs] \<and>
   fc_concat (build_fast_cmd sn pr wd ht segs out) = ([0 ..< length segs], length segs)"
  by (simp add: build_fast_cmd_def comp_def map_idI)

lemma createVideoFromSegments_cmd:
  "x \<in> set (snd (createVideoFromSegments sn pr ff segs out resolution)) \<Longrightarrow>
   \<exists>wh. x = FastRender (build_fast_cmd sn pr (fst wh) (snd wh) segs out)"
  by (auto simp: createVideoFromSegments_def Let_def split: sum.splits option.splits if_splits)

lemma createVideoFromSegments_Inr:
  "createVideoFromSegments sn pr ff segs out resolution = (Inr p, tr0) \<Longrightarrow>
   \<exists>wh. tr0 = [FastRender (build_fast_cmd sn pr (fst wh) (snd wh) segs out)] \<and>
        ff (build_fast_cmd sn pr (fst wh) (snd wh) segs out) = None"
  by (auto simp: createVideoFromSegments_def Let_def split: sum.splits option.splits if_splits)

lemma render_at_Inr:
  "fst (render_at w dir resolution i seg) = Inr p \<Longrightarrow>
   p = seg_path dir i \<and>
   (\<exists>wh. snd (render_at w dir resolution i seg) =
      [SegmentRender (build_segment_cmd (imagePath seg) (seg_path dir i) wh (duration seg))])"
  by (auto simp: render_at_def seg_path_def createSegmentVideo_def Let_def
      split: sum.splits proc.splits proc_end.splits if_splits)

lemma build_segment_cmd_io:
  "sc_input (build_segment_cmd i out wh d) = i \<and> sc_output (build_segment_cmd i out wh d) = out"
  by (simp add: build_segment_cmd_def Let_def)

lemma fallback_loop_Inr:
  "fallback_loop w dir resolution i xs = (Inr paths, tr1) \<Longrightarrow>
   paths = map (\<lambda>j. seg_path dir (i + j)) [0 ..< length xs] \<and>
   map sc_input (segment_cmds tr1) = map imagePath xs \<and>
   map sc_output (segment_cmds tr1) = paths"
proof (induction xs arbitrary: i paths tr1)
  case Nil
  then show ?case by simp
next
  case (Cons x xs)
  from Cons.prems obtain p where p: "fst (render_at w dir resolution i x) = Inr p"
    by (auto simp: fallback_loop_Cons simp del: fallback_loop.simps split: sum.splits)
  from render_at_Inr[OF p] obtain wh where
    p': "p = seg_path dir i"
    and eff: "snd (render_at w dir resolution i x) =
      [SegmentRender (build_segment_cmd (imagePath x) (seg_path dir i) wh (duration x))]"
    by blast
  from Cons.prems p obtain paths' where
    rest: "fst (fallback_loop w dir resolution (Suc i) xs) = Inr paths'"
    and paths: "paths = p # paths'"
    and tr1: "tr1 = snd (render_at w dir resolution i x) @ snd (fallback_loop w dir resolution (Suc i) xs)"
    by (auto simp: fallback_loop_Cons simp del: fallback_loop.simps split: sum.splits)
  have "fallback_loop w dir resolution (Suc i) xs =
      (Inr paths', snd (fallback_loop w dir resolution (Suc i) xs))"
    using rest by (metis prod.collapse)
  from Cons.IH[OF this]
  have IH: "paths' = map (\<lambda>j. seg_path dir (Suc i + j)) [0 ..< length xs]"
    "map sc_input (segment_cmds (snd (fallback_loop w dir resolution (Suc i) xs))) = map imagePath xs"
    "map sc_output (segment_cmds (snd (fallback_loop w dir resolution (Suc i) xs))) = paths'"
    by blast+
  have len: "length (x # xs) = Suc (length xs)" by simp
  have a: "paths = map (\<lambda>j. seg_path dir (i + j)) [0 ..< length (x # xs)]"
    unfolding len by (subst upt_shift_map) (simp add: paths p' IH(1) del: upt_Suc)
  have b: "map sc_input (segment_cmds tr1) = map imagePath (x # xs)"
    by (simp add: tr1 eff segment_cmds_append IH(2) build_segment_cmd_io)
  have c: "map sc_output (segment_cmds tr1) = paths"
    by (simp add: tr1 eff segment_cmds_append IH(3) build_segment_cmd_io paths p')
  show ?case using a b c by blast
qed

lemma concatVideos_effects:
  "snd (concatVideos ff paths final) =
     [WriteList (dirname final @ ''/filelist.txt'') (map file_line paths),
      ConcatRender (dirname final @ ''/filelist.txt'') final]"
  by (simp add: concatVideos_def Let_def file_line_def split: option.splits)

text \<open>What a successful composition has done, in either of its two ways.\<close>

lemma compose_Inr:
  assumes "compose w dir resolution segs = (Inr fp, trc)"
  shows "(\<exists>wh. trc = [FastRender (build_fast_cmd (str_num w) (ffprobe w) (fst wh) (snd wh) segs
                          (join dir ''final.mp4''))] \<and>
              ffmpeg_fast w (build_fast_cmd (str_num w) (ffprobe w) (fst wh) (snd wh) segs
                          (join dir ''final.mp4'')) = None) \<or>
         (\<exists>tr0 tr1 paths.
            trc = tr0 @ tr1 @
              [WriteList (dirname (join dir ''final.mp4'') @ ''/filelist.txt'') (map file_line paths),
               ConcatRender (dirname (join dir ''final.mp4'') @ ''/filelist.txt'') (join dir ''final.mp4'')] \<and>
            (\<forall>x \<in> set tr0. \<exists>wh. x = FastRender (build_fast_cmd (str_num w) (ffprobe w) (fst wh) (snd wh)
                          segs (join dir ''final.mp4''))) \<and>
            fallback_loop w dir resolution 0 segs = (Inr paths, tr1))"
proof -
  let ?final = "join dir ''final.mp4''"
  let ?fast = "createVideoFromSegments (str_num w) (ffprobe w) (ffmpeg_fast w) segs ?final resolution"
  obtain r0 tr0 where f: "?fast = (r0, tr0)" by (cases ?fast)
  show ?thesis
  proof (cases r0)
    case (Inr p)
    with f assms have "trc = tr0" by (simp add: compose_def Let_def)
    with createVideoFromSegments_Inr[OF f[unfolded Inr]] show ?thesis by blast
  next
    case (Inl singleErr)
    obtain r1 tr1 where l: "fallback_loop w dir resolution 0 segs = (r1, tr1)"
      by (cases "fallback_loop w dir resolution 0 segs")
    show ?thesis
    proof (cases r1)
      case (Inl e)
      with f \<open>r0 = Inl singleErr\<close> l assms show ?thesis by (simp add: compose_def Let_def)
    next
      case (Inr paths)
      obtain r2 tr2 where c: "concatVideos (ffmpeg_concat w) paths ?final = (r2, tr2)"
        by (cases "concatVideos (ffmpeg_concat w) paths ?final")
      have tr2: "tr2 = [WriteList (dirname ?final @ ''/filelist.txt'') (map file_line paths),
               ConcatRender (dirname ?final @ ''/filelist.txt'') ?final]"
        using concatVideos_effects[of "ffmpeg_concat w" paths ?final] c by simp
      have trc: "trc = tr0 @ tr1 @ tr2"
        using f \<open>r0 = Inl singleErr\<close> l Inr c assms
        by (cases r2) (simp_all add: compose_def Let_def)
      have k0: "\<forall>x \<in> set tr0. \<exists>wh. x = FastRender (build_fast_cmd (str_num w) (ffprobe w) (fst wh) (snd wh)
                          segs ?final)"
        using createVideoFromSegments_cmd[of _ "str_num w" "ffprobe w" "ffmpeg_fast w" segs ?final resolution] f
        by simp
      show ?thesis using trc tr2 k0 l Inr by blast
    qed
  qed
qed

lemma after_download_Inr:
  assumes "after_download w dir resolution style jobId segs = (Inr url, tr')"
  shows "\<exists>results fp trc.
           subtitleResults w dir style 0 segs = Inr results \<and>
           compose w dir resolution (map2 update_duration segs results) = (Inr fp, trc) \<and>
           tr' = trc @ [Upload fp jobId]"
proof (cases "subtitleResults w dir style 0 segs")
  case (Inl e)
  with assms show ?thesis by (simp add: after_download_def)
next
  case (Inr results)
  show ?thesis
  proof (cases "findIndex (missing_duration w) (map2 update_duration segs results)")
    case (Some i)
    with Inr assms show ?thesis by (simp add: after_download_def)
  next
    case None
    obtain rc trc where c: "compose w dir resolution (map2 update_duration segs results) = (rc, trc)"
      by (cases "compose w dir resolution (map2 update_duration segs results)")
    show ?thesis
    proof (cases rc)
      case (Inl e)
      with Inr None c assms show ?thesis by (simp add: after_download_def)
    next
      case (Inr fp)
      with \<open>subtitleResults w dir style 0 segs = Inr results\<close> None c assms
      have "tr' = trc @ [Upload fp jobId]"
        by (auto simp: after_download_def split: sum.splits)
      with \<open>subtitleResults w dir style 0 segs = Inr results\<close> c Inr show ?thesis by blast
    qed
  qed
qed

lemma fallback_loop_effects:
  "x \<in> set (snd (fallback_loop w dir resolution i xs)) \<Longrightarrow>
   (\<exists>c. x = SegmentRender c) \<or> (\<exists>p. x = Kill p)"
proof (induction xs arbitrary: i)
  case Nil
  then show ?case by simp
next
  case (Cons y ys)
  from Cons.prems have "x \<in> set (snd (render_at w dir resolution i y)) \<or>
      x \<in> set (snd (fallback_loop w dir resolution (Suc i) ys))"
    by (auto simp: fallback_loop_Cons simp del: fallback_loop.simps split: sum.splits)
  then show ?case
  proof
    assume "x \<in> set (snd (render_at w dir resolution i y))"
    then show ?thesis unfolding render_at_def by (rule createSegmentVideo_effects)
  next
    assume "x \<in> set (snd (fallback_loop w dir resolution (Suc i) ys))"
    then show ?thesis by (rule Cons.IH)
  qed
qed

text \<open>
  C1. Let the try block end with the URL of the uploaded video. Then the image of
  segment \<open>i\<close> is the file \<open>img_i\<close> of the session directory, whatever the order in
  which the downloads settled; every single-run command that was issued takes these
  files as its inputs \<open>0, 1, \<dots>\<close> in that order, feeds input \<open>i\<close> to the chain labelled
  \<open>sv i\<close> and concatenates the labels in the order \<open>0, 1, \<dots>\<close>; if the list file of the
  fallback was written, the clips were rendered from these files in index order and the
  list file names the clips \<open>seg_0, seg_1, \<dots>\<close> in that order; and the video that was
  uploaded comes from one of the two: a single run that ended, or the concatenation.
\<close>

theorem scene_order_is_segment_order:
  assumes ok: "try_body w dir resolution style jobId segments = (Some (Inr url), tr)"
  shows "(\<forall>cmd. FastRender cmd \<in> set tr \<longrightarrow>
            map fst (fc_inputs cmd) = map (img_path w dir segments) [0 ..< length segments] \<and>
            map fst (fc_filters cmd) = [0 ..< length segments] \<and>
            map (\<lambda>f. snd (snd f)) (fc_filters cmd) = [0 ..< length segments] \<and>
            fc_concat cmd = ([0 ..< length segments], length segments)) \<and>
         (\<forall>p ls. WriteList p ls \<in> set tr \<longrightarrow>
            ls = map (\<lambda>j. file_line (seg_path dir j)) [0 ..< length segments] \<and>
            map sc_output (segment_cmds tr) = map (seg_path dir) [0 ..< length segments] \<and>
            map sc_input (segment_cmds tr) = map (img_path w dir segments) [0 ..< length segments]) \<and>
         ((\<exists>cmd. FastRender cmd \<in> set tr \<and> ffmpeg_fast w cmd = None) \<or>
          (\<exists>p ls. WriteList p ls \<in> set tr))"
proof -
  let ?n = "length segments"
  let ?final = "join dir ''final.mp4''"
  let ?fetched = "map (\<lambda>t. Fetched (fst t)) (downloadTasks w dir segments)"
  from ok obtain segs tr' where
    dl: "promise_all ?n (downloadTasks w dir segments) = Some (Inr segs)"
    and ad: "after_download w dir resolution style jobId segs = (Inr url, tr')"
    and tr: "tr = ?fetched @ tr'"
    by (auto simp: try_body_def Let_def split: option.splits sum.splits prod.splits)
  from after_download_Inr[OF ad] obtain results fp trc where
    sub: "subtitleResults w dir style 0 segs = Inr results"
    and comp: "compose w dir resolution (map2 update_duration segs results) = (Inr fp, trc)"
    and tr': "tr' = trc @ [Upload fp jobId]"
    by blast
  let ?upd = "map2 update_duration segs results"
  from promise_all_downloads[OF dl] have
    len: "length segs = ?n"
    and own: "\<forall>i<?n. download_task w dir i (segments ! i) = Fulfil (segs ! i)"
    by blast+
  have lenr: "length results = length segs" using sub by (rule subtitleResults_length)
  have lenu: "length ?upd = ?n" using len lenr by simp
  have paths_segs: "map imagePath segs = map (img_path w dir segments) [0 ..< ?n]"
  proof (rule nth_equalityI)
    show "length (map imagePath segs) = length (map (img_path w dir segments) [0 ..< ?n])"
      using len by simp
  next
    fix i assume "i < length (map imagePath segs)"
    then have i: "i < ?n" using len by simp
    with own have "download_task w dir i (segments ! i) = Fulfil (segs ! i)" by simp
    from download_task_imagePath[OF this] i len
    show "map imagePath segs ! i = map (img_path w dir segments) [0 ..< ?n] ! i"
      by (simp add: img_path_def)
  qed
  have paths_upd: "map imagePath ?upd = map (img_path w dir segments) [0 ..< ?n]"
    using map2_update_duration_imagePath[OF lenr] paths_segs by simp
  have sc: "segment_cmds tr = segment_cmds trc"
    by (simp add: tr tr' segment_cmds_append segment_cmds_Fetched)
  have fast_in: "FastRender cmd \<in> set tr \<longleftrightarrow> FastRender cmd \<in> set trc" for cmd
    by (auto simp: tr tr')
  have wl_in: "WriteList p ls \<in> set tr \<longleftrightarrow> WriteList p ls \<in> set trc" for p ls
    by (auto simp: tr tr')
  have fast_ok: "map fst (fc_inputs cmd) = map (img_path w dir segments) [0 ..< ?n] \<and>
            map fst (fc_filters cmd) = [0 ..< ?n] \<and>
            map (\<lambda>f. snd (snd f)) (fc_filters cmd) = [0 ..< ?n] \<and>
            fc_concat cmd = ([0 ..< ?n], ?n)"
    if "cmd = build_fast_cmd (str_num w) (ffprobe w) (fst wh) (snd wh) ?upd ?final" for cmd wh
    unfolding that
    using build_fast_cmd_order[of "str_num w" "ffprobe w" "fst wh" "snd wh" ?upd ?final]
      paths_upd lenu by simp
  from compose_Inr[OF comp] show ?thesis
  proof (elim disjE exE conjE)
    fix wh
    assume trc: "trc = [FastRender (build_fast_cmd (str_num w) (ffprobe w) (fst wh) (snd wh) ?upd ?final)]"
      and run: "ffmpeg_fast w (build_fast_cmd (str_num w) (ffprobe w) (fst wh) (snd wh) ?upd ?final) = None"
    have a: "\<forall>cmd. FastRender cmd \<in> set tr \<longrightarrow>
            map fst (fc_inputs cmd) = map (img_path w dir segments) [0 ..< ?n] \<and>
            map fst (fc_filters cmd) = [0 ..< ?n] \<and>
            map (\<lambda>f. snd (snd f)) (fc_filters cmd) = [0 ..< ?n] \<and>
            fc_concat cmd = ([0 ..< ?n], ?n)"
    proof (intro allI impI)
      fix cmd assume "FastRender cmd \<in> set tr"
      then have "cmd = build_fast_cmd (str_num w) (ffprobe w) (fst wh) (snd wh) ?upd ?final"
        by (simp add: fast_in trc)
      then show "map fst (fc_inputs cmd) = map (img_path w dir segments) [0 ..< ?n] \<and>
            map fst (fc_filters cmd) = [0 ..< ?n] \<and>
            map (\<lambda>f. snd (snd f)) (fc_filters cmd) = [0 ..< ?n] \<and>
            fc_concat cmd = ([0 ..< ?n], ?n)"
        by (rule fast_ok)
    qed
    have b: "\<forall>p ls. WriteList p ls \<notin> set tr" by (simp add: wl_in trc)
    have "FastRender (build_fast_cmd (str_num w) (ffprobe w) (fst wh) (snd wh) ?upd ?final) \<in> set tr"
      by (simp add: fast_in trc)
    with run have c: "\<exists>cmd. FastRender cmd \<in> set tr \<and> ffmpeg_fast w cmd = None"
      by blast
    show ?thesis using a b c by blast
  next
    fix tr0 tr1 paths
    assume trc: "trc = tr0 @ tr1 @
              [WriteList (dirname ?final @ ''/filelist.txt'') (map file_line paths),
               ConcatRender (dirname ?final @ ''/filelist.txt'') ?final]"
      and k0: "\<forall>x \<in> set tr0. \<exists>wh. x = FastRender (build_fast_cmd (str_num w) (ffprobe w) (fst wh) (snd wh)
                          ?upd ?final)"
      and loop: "fallback_loop w dir resolution 0 ?upd = (Inr paths, tr1)"
    from fallback_loop_Inr[OF loop] have
      paths: "paths = map (seg_path dir) [0 ..< ?n]"
      and ins: "map sc_input (segment_cmds tr1) = map imagePath ?upd"
      and outs: "map sc_output (segment_cmds tr1) = paths"
      using lenu by simp_all
    have k1: "\<forall>x \<in> set tr1. (\<exists>c. x = SegmentRender c) \<or> (\<exists>p. x = Kill p)"
      using fallback_loop_effects[of _ w dir resolution 0 ?upd] loop by simp
    have sc0: "segment_cmds tr0 = []"
      using k0 by (induction tr0) auto
    have sctrc: "segment_cmds trc = segment_cmds tr1"
      by (simp add: trc segment_cmds_append sc0)
    have a: "\<forall>cmd. FastRender cmd \<in> set tr \<longrightarrow>
            map fst (fc_inputs cmd) = map (img_path w dir segments) [0 ..< ?n] \<and>
            map fst (fc_filters cmd) = [0 ..< ?n] \<and>
            map (\<lambda>f. snd (snd f)) (fc_filters cmd) = [0 ..< ?n] \<and>
            fc_concat cmd = ([0 ..< ?n], ?n)"
    proof (intro allI impI)
      fix cmd assume "FastRender cmd \<in> set tr"
      then have "FastRender cmd \<in> set tr0 \<or> FastRender cmd \<in> set tr1"
        by (auto simp: fast_in trc)
      moreover have "FastRender cmd \<notin> set tr1" using k1 by auto
      ultimately have "FastRender cmd \<in> set tr0" by blast
      with k0 obtain wh where
        "cmd = build_fast_cmd (str_num w) (ffprobe w) (fst wh) (snd wh) ?upd ?final"
        by auto
      then show "map fst (fc_inputs cmd) = map (img_path w dir segments) [0 ..< ?n] \<and>
            map fst (fc_filters cmd) = [0 ..< ?n] \<and>
            map (\<lambda>f. snd (snd f)) (fc_filters cmd) = [0 ..< ?n] \<and>
            fc_concat cmd = ([0 ..< ?n], ?n)"
        by (rule fast_ok)
    qed
    have b: "\<forall>p ls. WriteList p ls \<in> set tr \<longrightarrow>
            ls = map (\<lambda>j. file_line (seg_path dir j)) [0 ..< ?n] \<and>
            map sc_output (segment_cmds tr) = map (seg_path dir) [0 ..< ?n] \<and>
            map sc_input (segment_cmds tr) = map (img_path w dir segments) [0 ..< ?n]"
    proof (intro allI impI)
      fix p ls assume "WriteList p ls \<in> set tr"
      then have "WriteList p ls \<in> set tr0 \<or> WriteList p ls \<in> set tr1 \<or>
                 ls = map file_line paths"
        by (auto simp: wl_in trc)
      moreover have "WriteList p ls \<notin> set tr0" using k0 by auto
      moreover have "WriteList p ls \<notin> set tr1" using k1 by auto
      ultimately have "ls = map file_line paths" by blast
      then have l1: "ls = map (\<lambda>j. file_line (seg_path dir j)) [0 ..< ?n]"
        by (simp add: paths comp_def)
      have l2: "map sc_output (segment_cmds tr) = map (seg_path dir) [0 ..< ?n]"
        by (simp add: sc sctrc outs paths)
      have l3: "map sc_input (segment_cmds tr) = map (img_path w dir segments) [0 ..< ?n]"
        unfolding sc sctrc ins by (rule paths_upd)
      show "ls = map (\<lambda>j. file_line (seg_path dir j)) [0 ..< ?n] \<and>
            map sc_output (segment_cmds tr) = map (seg_path dir) [0 ..< ?n] \<and>
            map sc_input (segment_cmds tr) = map (img_path w dir segments) [0 ..< ?n]"
        using l1 l2 l3 by blast
    qed
    have "WriteList (dirname ?final @ ''/filelist.txt'') (map file_line paths) \<in> set tr"
      by (simp add: wl_in trc)
    then have c: "\<exists>p ls. WriteList p ls \<in> set tr" by blast
    show ?thesis using a b c by blast
  qed
qed

theorem scene_order_is_segment_order_witness:
  "completion world_ok = [1, 0] \<and>
   try_body world_ok ''/app/temp/s1'' (JStr ''1280x720'') JNull ''job-123''
      (map normalize_segment [segment_a, segment_b]) =
     (Some (Inr ''https://store/job-123.mp4''),
      [Fetched 1, Fetched 0, FastRender fast_cmd_two,
       Upload ''/app/temp/s1/final.mp4'' ''job-123'']) \<and>
   map fst (fc_inputs fast_cmd_two) =
     map (img_path world_ok ''/app/temp/s1'' (map normalize_segment [segment_a, segment_b]))
       [0 ..< length (map normalize_segment [segment_a, segment_b])] \<and>
   fc_concat fast_cmd_two =
     ([0 ..< length (map normalize_segment [segment_a, segment_b])],
      length (map normalize_segment [segment_a, segment_b]))"
proof -
  let ?tr = "[Fetched 1, Fetched 0, FastRender fast_cmd_two,
       Upload ''/app/temp/s1/final.mp4'' ''job-123'']"
  have order: "completion world_ok = [1, 0]" by (simp add: world_ok_def)
  have ok: "try_body world_ok ''/app/temp/s1'' (JStr ''1280x720'') JNull ''job-123''
      (map normalize_segment [segment_a, segment_b]) =
     (Some (Inr ''https://store/job-123.mp4''), ?tr)"
    by code_simp
  have mem: "FastRender fast_cmd_two \<in> set ?tr" by simp
  from scene_order_is_segment_order[OF ok] mem
  have "map fst (fc_inputs fast_cmd_two) =
     map (img_path world_ok ''/app/temp/s1'' (map normalize_segment [segment_a, segment_b]))
       [0 ..< length (map normalize_segment [segment_a, segment_b])] \<and>
   fc_concat fast_cmd_two =
     ([0 ..< length (map normalize_segment [segment_a, segment_b])],
      length (map normalize_segment [segment_a, segment_b]))"
    by blast
  with order ok show ?thesis by blast
qed


end
